theory Spec2Isabelle
  imports Main "HOL-Library.AList"
begin

section \<open>Values, payloads and errors\<close>

text \<open>
  The server (src/server.js) receives socket.io events whose payload is decoded JSON.
  Every handler destructures its payload in the parameter list, e.g.
  \<^verbatim>\<open>socket.on('join-room', ({ room, userName }) => ...)\<close>.
  Destructuring \<^verbatim>\<open>undefined\<close> or \<^verbatim>\<open>null\<close> throws a TypeError; destructuring an object
  (or any other primitive) reads every absent property as \<^verbatim>\<open>undefined\<close>.

  A payload is therefore \<open>None\<close> (the argument is missing or null) or \<open>Some obj\<close>, an
  object given by its properties; a property value is a string or \<^verbatim>\<open>undefined\<close>.
  A payload that is a number, a boolean or a string behaves as the empty object.
\<close>

datatype jsv = Undefined | Str string

datatype error = TypeError

type_synonym obj = "(string \<times> jsv) list"
type_synonym payload = "obj option"

definition get_prop :: "obj \<Rightarrow> string \<Rightarrow> jsv" where
  "get_prop ob k = (case map_of ob k of None \<Rightarrow> Undefined | Some v \<Rightarrow> v)"

text \<open>JavaScript truthiness, as used by \<^verbatim>\<open>if (socket.currentRoom)\<close>.\<close>

fun truthy :: "jsv \<Rightarrow> bool" where
  "truthy Undefined = False"
| "truthy (Str s) = (s \<noteq> [])"

section \<open>Data model\<close>

text \<open>
  \<^verbatim>\<open>rooms\<close> is a JavaScript Map from room name to
  \<^verbatim>\<open>{ name, participants: Map, createdAt }\<close>, and \<^verbatim>\<open>participants\<close> maps a socket id to
  \<^verbatim>\<open>{ id, name, isTalking, joinedAt }\<close>. A Map iterates in insertion order, so both are
  association lists: \<^verbatim>\<open>get\<close> is \<open>map_of\<close>, \<^verbatim>\<open>set\<close> is \<open>AList.update\<close> (a present key
  keeps its position, a new key goes to the end), \<^verbatim>\<open>delete\<close> is \<open>AList.delete\<close>,
  \<^verbatim>\<open>size\<close> is \<open>length\<close> and \<^verbatim>\<open>Array.from(m.values())\<close> is \<open>map snd\<close>.
  Timestamps (\<^verbatim>\<open>new Date()\<close>) are natural numbers handed to the handler.
\<close>

record participant =
  pid :: string
  pname :: jsv
  isTalking :: bool
  joinedAt :: nat

record room =
  name :: jsv
  participants :: "(string \<times> participant) list"
  createdAt :: nat

text \<open>
  The per-connection state: \<^verbatim>\<open>socket.rooms\<close> (socket.io's set of the rooms the socket
  has joined, which holds the socket's own id from the moment it connects),
  and the two fields the server stores on the socket object.
\<close>

record socket =
  srooms :: "jsv list"
  userName :: jsv
  currentRoom :: jsv
  connected :: bool

datatype body =
    UserJoined "participant list"
  | UserLeft "participant list"
  | UserTalking string jsv bool
  | OfferMsg jsv string jsv
  | AnswerMsg jsv string jsv
  | IceCandidateMsg jsv string jsv

record emitted =
  recipients :: "string list"
  body :: body

record state =
  rooms :: "(jsv \<times> room) list"
  sockets :: "(string \<times> socket) list"
  outbox :: "emitted list"

definition init :: state where
  "init = \<lparr>rooms = [], sockets = [], outbox = []\<rparr>"

section \<open>The socket.io operations the server calls\<close>

text \<open>
  socket.io (version 4) is the library the server is written against. Of it the server
  uses rooms: \<^verbatim>\<open>socket.join\<close> and \<^verbatim>\<open>socket.leave\<close> add a room to \<^verbatim>\<open>socket.rooms\<close>
  and take it out, and \<^verbatim>\<open>io.to(x).emit\<close> reaches every socket that is in room \<open>x\<close>.
  \<^verbatim>\<open>socket.to(x).emit\<close> is a broadcast to room \<open>x\<close> with the room named
  \<^verbatim>\<open>socket.id\<close> as its except-room: it reaches the sockets in room \<open>x\<close> that are not in
  the room named by the sender's id. The sender is in that room from the moment it
  connects, which is how it is left out; a socket that has joined a room of that name
  is left out with it, and a sender that has left the room of its own id is not left
  out. The server sends to one connection with the same call,
  \<^verbatim>\<open>socket.to(to).emit\<close>: a socket is reached under its own id because it is in the
  room of that name, which is why the join-room handler finds \<^verbatim>\<open>socket.id\<close> in
  \<^verbatim>\<open>socket.rooms\<close>. Every emit is appended to \<open>outbox\<close> with the list of the sockets
  it reaches.
\<close>

definition members_of :: "jsv \<Rightarrow> state \<Rightarrow> string list" where
  "members_of x st = map fst (filter (\<lambda>e. x \<in> set (srooms (snd e))) (sockets st))"

definition io_to_emit :: "jsv \<Rightarrow> body \<Rightarrow> state \<Rightarrow> state" where
  "io_to_emit x b st =
     st\<lparr>outbox := outbox st @ [\<lparr>recipients = members_of x st, body = b\<rparr>]\<rparr>"

definition socket_to :: "string \<Rightarrow> jsv \<Rightarrow> state \<Rightarrow> string list" where
  "socket_to s x st = filter (\<lambda>t. t \<notin> set (members_of (Str s) st)) (members_of x st)"

definition socket_to_emit :: "string \<Rightarrow> jsv \<Rightarrow> body \<Rightarrow> state \<Rightarrow> state" where
  "socket_to_emit s x b st =
     st\<lparr>outbox := outbox st @ [\<lparr>recipients = socket_to s x st, body = b\<rparr>]\<rparr>"

definition socket_join :: "string \<Rightarrow> jsv \<Rightarrow> state \<Rightarrow> state" where
  "socket_join s x st =
     st\<lparr>sockets := AList.map_entry s
        (\<lambda>k. k\<lparr>srooms := (if x \<in> set (srooms k) then srooms k else srooms k @ [x])\<rparr>)
        (sockets st)\<rparr>"

definition socket_leave :: "string \<Rightarrow> jsv \<Rightarrow> state \<Rightarrow> state" where
  "socket_leave s x st =
     st\<lparr>sockets := AList.map_entry s (\<lambda>k. k\<lparr>srooms := removeAll x (srooms k)\<rparr>) (sockets st)\<rparr>"

definition socket_rooms :: "state \<Rightarrow> string \<Rightarrow> jsv list" where
  "socket_rooms st s = (case map_of (sockets st) s of None \<Rightarrow> [] | Some k \<Rightarrow> srooms k)"

definition socket_userName :: "state \<Rightarrow> string \<Rightarrow> jsv" where
  "socket_userName st s = (case map_of (sockets st) s of None \<Rightarrow> Undefined | Some k \<Rightarrow> userName k)"

definition socket_currentRoom :: "state \<Rightarrow> string \<Rightarrow> jsv" where
  "socket_currentRoom st s =
     (case map_of (sockets st) s of None \<Rightarrow> Undefined | Some k \<Rightarrow> currentRoom k)"

section \<open>The handlers\<close>

text \<open>
  \<^verbatim>\<open>handleUserLeave(socket, room)\<close> (server.js 185-203).
\<close>

definition handleUserLeave :: "string \<Rightarrow> jsv \<Rightarrow> state \<Rightarrow> state" where
  "handleUserLeave s r st =
     socket_leave s r
       (case map_of (rooms st) r of
          None \<Rightarrow> st
        | Some roomData \<Rightarrow>
            (let ps = AList.delete s (participants roomData) in
             if length ps = 0 then st\<lparr>rooms := AList.delete r (rooms st)\<rparr>
             else socket_to_emit s r (UserLeft (map snd ps))
                    (st\<lparr>rooms := AList.update r (roomData\<lparr>participants := ps\<rparr>) (rooms st)\<rparr>)))"

text \<open>
  The body of \<^verbatim>\<open>socket.rooms.forEach(roomName => ...)\<close> in the join-room handler
  (server.js 58-74), and the loop itself over the rooms the socket is in when the
  loop starts (the body removes only the element it is visiting).
\<close>

definition leave_existing :: "string \<Rightarrow> jsv \<Rightarrow> state \<Rightarrow> state" where
  "leave_existing s roomName st =
     (if roomName \<noteq> Str s then
        (let st1 = socket_leave s roomName st in
         case map_of (rooms st1) roomName of
           None \<Rightarrow> st1
         | Some existingRoom \<Rightarrow>
             (let ps = AList.delete s (participants existingRoom) in
              if length ps = 0 then st1\<lparr>rooms := AList.delete roomName (rooms st1)\<rparr>
              else socket_to_emit s roomName (UserLeft (map snd ps))
                     (st1\<lparr>rooms :=
                        AList.update roomName (existingRoom\<lparr>participants := ps\<rparr>) (rooms st1)\<rparr>)))
      else st)"

definition leave_all_existing :: "string \<Rightarrow> state \<Rightarrow> state" where
  "leave_all_existing s st = fold (leave_existing s) (socket_rooms st s) st"

text \<open>
  The join-room handler (server.js 54-107); \<open>now\<close> is the value of \<^verbatim>\<open>new Date()\<close>,
  taken as the same for the room and the participant record. Reading
  \<^verbatim>\<open>roomData.participants\<close> of a missing room would throw; the room has just been
  created if it was missing, so that branch is never taken.
\<close>

definition join_room :: "string \<Rightarrow> nat \<Rightarrow> payload \<Rightarrow> state \<Rightarrow> error + state" where
  "join_room s now p st =
     (case p of
        None \<Rightarrow> Inl TypeError
      | Some ob \<Rightarrow>
          (let r = get_prop ob ''room''; un = get_prop ob ''userName'';
               st1 = leave_all_existing s st;
               st2 = socket_join s r st1;
               st3 = (if map_of (rooms st2) r = None
                      then st2\<lparr>rooms := AList.update r
                             \<lparr>name = r, participants = [], createdAt = now\<rparr> (rooms st2)\<rparr>
                      else st2)
           in case map_of (rooms st3) r of
                None \<Rightarrow> Inl TypeError
              | Some roomData \<Rightarrow>
                  (let ps = AList.update s
                              \<lparr>pid = s, pname = un, isTalking = False, joinedAt = now\<rparr>
                              (participants roomData);
                       st4 = st3\<lparr>rooms :=
                               AList.update r (roomData\<lparr>participants := ps\<rparr>) (rooms st3)\<rparr>;
                       st5 = st4\<lparr>sockets := AList.map_entry s
                               (\<lambda>k. k\<lparr>userName := un, currentRoom := r\<rparr>) (sockets st4)\<rparr>
                   in Inr (io_to_emit r (UserJoined (map snd ps)) st5))))"

text \<open>
  start-talking and stop-talking (server.js 109-143) differ only in the flag.
\<close>

definition set_talking :: "bool \<Rightarrow> string \<Rightarrow> payload \<Rightarrow> state \<Rightarrow> error + state" where
  "set_talking flag s p st =
     (case p of
        None \<Rightarrow> Inl TypeError
      | Some ob \<Rightarrow>
          (let r = get_prop ob ''room'' in
           case map_of (rooms st) r of
             None \<Rightarrow> Inr st
           | Some roomData \<Rightarrow>
               (case map_of (participants roomData) s of
                  None \<Rightarrow> Inr st
                | Some user \<Rightarrow>
                    (let ps = AList.update s (user\<lparr>isTalking := flag\<rparr>) (participants roomData);
                         st1 = st\<lparr>rooms :=
                                 AList.update r (roomData\<lparr>participants := ps\<rparr>) (rooms st)\<rparr>
                     in Inr (socket_to_emit s r
                               (UserTalking s (socket_userName st1 s) flag) st1)))))"

definition start_talking :: "string \<Rightarrow> payload \<Rightarrow> state \<Rightarrow> error + state" where
  "start_talking = set_talking True"

definition stop_talking :: "string \<Rightarrow> payload \<Rightarrow> state \<Rightarrow> error + state" where
  "stop_talking = set_talking False"

text \<open>The WebRTC signalling relays (server.js 146-171).\<close>

definition offer :: "string \<Rightarrow> payload \<Rightarrow> state \<Rightarrow> error + state" where
  "offer s p st =
     (case p of
        None \<Rightarrow> Inl TypeError
      | Some ob \<Rightarrow>
          Inr (socket_to_emit s (get_prop ob ''to'')
                 (OfferMsg (get_prop ob ''offer'') s (get_prop ob ''room'')) st))"

definition answer :: "string \<Rightarrow> payload \<Rightarrow> state \<Rightarrow> error + state" where
  "answer s p st =
     (case p of
        None \<Rightarrow> Inl TypeError
      | Some ob \<Rightarrow>
          Inr (socket_to_emit s (get_prop ob ''to'')
                 (AnswerMsg (get_prop ob ''answer'') s (get_prop ob ''room'')) st))"

definition ice_candidate :: "string \<Rightarrow> payload \<Rightarrow> state \<Rightarrow> error + state" where
  "ice_candidate s p st =
     (case p of
        None \<Rightarrow> Inl TypeError
      | Some ob \<Rightarrow>
          Inr (socket_to_emit s (get_prop ob ''to'')
                 (IceCandidateMsg (get_prop ob ''candidate'') s (get_prop ob ''room'')) st))"

text \<open>leave-room (server.js 173-176) leaves the room the event names.\<close>

definition leave_room :: "string \<Rightarrow> payload \<Rightarrow> state \<Rightarrow> error + state" where
  "leave_room s p st =
     (case p of
        None \<Rightarrow> Inl TypeError
      | Some ob \<Rightarrow> Inr (handleUserLeave s (get_prop ob ''room'') st))"

text \<open>
  disconnect (server.js 178-183). socket.io has already taken the socket out of all
  its rooms when it fires the event.
\<close>

definition disconnect :: "string \<Rightarrow> state \<Rightarrow> state" where
  "disconnect s st =
     (let st1 = st\<lparr>sockets := AList.map_entry s
                   (\<lambda>k. k\<lparr>srooms := [], connected := False\<rparr>) (sockets st)\<rparr>
      in if truthy (socket_currentRoom st1 s)
         then handleUserLeave s (socket_currentRoom st1 s) st1
         else st1)"

text \<open>
  The periodic sweep (server.js 207-223): collect the names of the rooms without
  participants, then delete each.
\<close>

definition cleanup :: "state \<Rightarrow> state" where
  "cleanup st =
     (let emptyRooms = map fst (filter (\<lambda>e. length (participants (snd e)) = 0) (rooms st))
      in st\<lparr>rooms := fold AList.delete emptyRooms (rooms st)\<rparr>)"

text \<open>
  \<^verbatim>\<open>GET /api/rooms/:roomId\<close> (server.js 39-49): the response and the state, which the
  handler only reads. express matches the parameter \<^verbatim>\<open>:roomId\<close> against a path segment
  of at least one character and the server has no other route under
  \<^verbatim>\<open>/api/rooms/\<close>, so for the empty id the handler does not run and express answers
  404. For every other id the handler runs and \<^verbatim>\<open>res.json\<close> answers with status 200.
\<close>

record room_info =
  info_participants :: "participant list"
  participantCount :: nat

datatype response = Ok200 room_info | NotFound404

definition get_room_info :: "string \<Rightarrow> state \<Rightarrow> response \<times> state" where
  "get_room_info roomId st =
     (if roomId = [] then (NotFound404, st)
      else
        (case map_of (rooms st) (Str roomId) of
           Some r \<Rightarrow>
             (Ok200 \<lparr>info_participants = map snd (participants r),
                     participantCount = length (participants r)\<rparr>, st)
         | None \<Rightarrow> (Ok200 \<lparr>info_participants = [], participantCount = 0\<rparr>, st)))"

section \<open>Events and runs\<close>

text \<open>
  A new connection gets a fresh id and starts in the room of its own id. The handlers
  exist only for a connected socket, so an event of a socket that is not connected
  does nothing, and an id is never given out twice. An exception thrown by a handler
  is not caught by the server: a run stops at the first one.
\<close>

datatype event =
    Connect string
  | JoinRoom string nat payload
  | StartTalking string payload
  | StopTalking string payload
  | Offer string payload
  | Answer string payload
  | IceCandidate string payload
  | LeaveRoom string payload
  | Disconnect string
  | Sweep

definition is_connected :: "state \<Rightarrow> string \<Rightarrow> bool" where
  "is_connected st s = (case map_of (sockets st) s of None \<Rightarrow> False | Some k \<Rightarrow> connected k)"

definition connect :: "string \<Rightarrow> state \<Rightarrow> state" where
  "connect s st =
     (if map_of (sockets st) s = None
      then st\<lparr>sockets := sockets st @
             [(s, \<lparr>srooms = [Str s], userName = Undefined, currentRoom = Undefined,
                   connected = True\<rparr>)]\<rparr>
      else st)"

fun sender :: "event \<Rightarrow> string option" where
  "sender (Connect s) = None"
| "sender (JoinRoom s now p) = Some s"
| "sender (StartTalking s p) = Some s"
| "sender (StopTalking s p) = Some s"
| "sender (Offer s p) = Some s"
| "sender (Answer s p) = Some s"
| "sender (IceCandidate s p) = Some s"
| "sender (LeaveRoom s p) = Some s"
| "sender (Disconnect s) = Some s"
| "sender Sweep = None"

fun handle :: "event \<Rightarrow> state \<Rightarrow> error + state" where
  "handle (Connect s) st = Inr (connect s st)"
| "handle (JoinRoom s now p) st = join_room s now p st"
| "handle (StartTalking s p) st = start_talking s p st"
| "handle (StopTalking s p) st = stop_talking s p st"
| "handle (Offer s p) st = offer s p st"
| "handle (Answer s p) st = answer s p st"
| "handle (IceCandidate s p) st = ice_candidate s p st"
| "handle (LeaveRoom s p) st = leave_room s p st"
| "handle (Disconnect s) st = Inr (disconnect s st)"
| "handle Sweep st = Inr (cleanup st)"

definition step :: "event \<Rightarrow> state \<Rightarrow> error + state" where
  "step e st =
     (case sender e of
        None \<Rightarrow> handle e st
      | Some s \<Rightarrow> if is_connected st s then handle e st else Inr st)"

fun run :: "event list \<Rightarrow> state \<Rightarrow> error + state" where
  "run [] st = Inr st"
| "run (e # es) st = (case step e st of Inl err \<Rightarrow> Inl err | Inr st' \<Rightarrow> run es st')"

section \<open>What the statements talk about\<close>

text \<open>The ids of the participants of a room, in the order of the room's map.\<close>

definition room_members :: "jsv \<Rightarrow> state \<Rightarrow> string list" where
  "room_members r st =
     (case map_of (rooms st) r of None \<Rightarrow> [] | Some rd \<Rightarrow> map fst (participants rd))"

text \<open>
  The participant records of a room, \<^verbatim>\<open>Array.from(room.participants.values())\<close>; empty
  for a room that is not in the registry.
\<close>

definition room_records :: "jsv \<Rightarrow> state \<Rightarrow> participant list" where
  "room_records r st =
     (case map_of (rooms st) r of None \<Rightarrow> [] | Some rd \<Rightarrow> map snd (participants rd))"

section \<open>The rooms as the specification describes them\<close>





section \<open>What the handlers do to the registry, the sockets and the outbox\<close>

text \<open>
  Both \<^verbatim>\<open>handleUserLeave\<close> and the loop of join-room take a socket out of a room
  entry and drop the entry when it is left without participants; \<open>without\<close> is that
  step on the result of \<^verbatim>\<open>rooms.get\<close>.
\<close>

definition without :: "string \<Rightarrow> room option \<Rightarrow> room option" where
  "without s ro =
     (case ro of
        None \<Rightarrow> None
      | Some rd \<Rightarrow>
          if AList.delete s (participants rd) = [] then None
          else Some (rd\<lparr>participants := AList.delete s (participants rd)\<rparr>))"

lemma without_idem: "without s (without s ro) = without s ro"
  by (simp add: without_def AList.delete_idem split: option.split)

lemma rooms_socket_leave [simp]: "rooms (socket_leave s x st) = rooms st"
  and outbox_socket_leave [simp]: "outbox (socket_leave s x st) = outbox st"
  by (simp_all add: socket_leave_def)

lemma rooms_socket_join [simp]: "rooms (socket_join s x st) = rooms st"
  and outbox_socket_join [simp]: "outbox (socket_join s x st) = outbox st"
  by (simp_all add: socket_join_def)

lemma rooms_socket_to_emit [simp]: "rooms (socket_to_emit s x b st) = rooms st"
  and sockets_socket_to_emit [simp]: "sockets (socket_to_emit s x b st) = sockets st"
  by (simp_all add: socket_to_emit_def)

lemma rooms_io_to_emit [simp]: "rooms (io_to_emit x b st) = rooms st"
  and sockets_io_to_emit [simp]: "sockets (io_to_emit x b st) = sockets st"
  by (simp_all add: io_to_emit_def)

lemma handleUserLeave_rooms:
  "map_of (rooms (handleUserLeave s r st)) =
     (map_of (rooms st))(r := without s (map_of (rooms st) r))"
  by (auto simp add: handleUserLeave_def without_def Let_def AList.delete_conv'
      AList.update_conv' fun_eq_iff split: option.split)

lemma handleUserLeave_sockets:
  "sockets (handleUserLeave s r st) =
     AList.map_entry s (\<lambda>k. k\<lparr>srooms := removeAll r (srooms k)\<rparr>) (sockets st)"
  by (simp add: handleUserLeave_def socket_leave_def Let_def split: option.split)

lemma members_of_other_fields [simp]:
  "members_of x (st\<lparr>rooms := rs\<rparr>) = members_of x st"
  "members_of x (st\<lparr>outbox := ob\<rparr>) = members_of x st"
  by (simp_all add: members_of_def)

lemma socket_to_other_fields [simp]:
  "socket_to s x (st\<lparr>rooms := rs\<rparr>) = socket_to s x st"
  "socket_to s x (st\<lparr>outbox := ob\<rparr>) = socket_to s x st"
  by (simp_all add: socket_to_def)

lemma handleUserLeave_outbox:
  "outbox (handleUserLeave s r st) =
     outbox st @
     (case map_of (rooms st) r of
        None \<Rightarrow> []
      | Some rd \<Rightarrow>
          if AList.delete s (participants rd) = [] then []
          else [\<lparr>recipients = socket_to s r st,
                 body = UserLeft (map snd (AList.delete s (participants rd)))\<rparr>])"
  by (simp add: handleUserLeave_def socket_to_emit_def Let_def split: option.split)

text \<open>
  The server's socket list has no id twice (\<open>connect\<close> adds an id only when it is
  new), and then \<^verbatim>\<open>socket.leave(x)\<close> takes the socket out of the socket.io room \<open>x\<close>
  and changes no other room.
\<close>

lemma keys_map_entry [simp]: "map fst (AList.map_entry s f xs) = map fst xs"
  by (induction xs) auto

lemma keys_filter_leave_other:
  "x \<noteq> y \<Longrightarrow>
   map fst (filter (\<lambda>e. x \<in> set (srooms (snd e)))
     (AList.map_entry s (\<lambda>k. k\<lparr>srooms := removeAll y (srooms k)\<rparr>) xs)) =
   map fst (filter (\<lambda>e. x \<in> set (srooms (snd e))) xs)"
  by (induction xs) auto

lemma keys_filter_without:
  "distinct (map fst xs) \<Longrightarrow> (\<And>k. \<not> P (f k)) \<Longrightarrow>
   map fst (filter (\<lambda>e. P (snd e)) (AList.map_entry s f xs)) =
   removeAll s (map fst (filter (\<lambda>e. P (snd e)) xs))"
proof (induction xs)
  case Nil
  show ?case by simp
next
  case (Cons e xs)
  show ?case
  proof (cases "fst e = s")
    case True
    then have "s \<notin> set (map fst (filter (\<lambda>e. P (snd e)) xs))"
      using Cons.prems(1) by auto
    then have "removeAll s (map fst (filter (\<lambda>e. P (snd e)) xs)) =
        map fst (filter (\<lambda>e. P (snd e)) xs)"
      by (rule removeAll_id)
    then show ?thesis
      using True Cons.prems(2) by (cases e) simp
  next
    case False
    then show ?thesis
      using Cons by (cases e) simp
  qed
qed

lemma members_of_leave_other:
  "x \<noteq> y \<Longrightarrow> members_of x (socket_leave s y st) = members_of x st"
  by (simp add: members_of_def socket_leave_def keys_filter_leave_other)

lemma members_of_leave_same:
  "distinct (map fst (sockets st)) \<Longrightarrow>
   members_of x (socket_leave s x st) = removeAll s (members_of x st)"
  using keys_filter_without [where P = "\<lambda>k. x \<in> set (srooms k)"
      and f = "\<lambda>k. k\<lparr>srooms := removeAll x (srooms k)\<rparr>" and xs = "sockets st" and s = s]
  by (simp add: members_of_def socket_leave_def)

lemma removeAll_filter: "removeAll s (filter P xs) = filter P (removeAll s xs)"
  by (induction xs) auto

lemma socket_to_socket_leave:
  assumes "distinct (map fst (sockets st))" and "r \<noteq> Str s"
  shows "socket_to s r (socket_leave s r st) = removeAll s (socket_to s r st)"
  using assms
  by (simp add: socket_to_def members_of_leave_same members_of_leave_other removeAll_filter)

lemma leave_existing_rooms:
  "map_of (rooms (leave_existing s r st)) =
     (if r = Str s then map_of (rooms st)
      else (map_of (rooms st))(r := without s (map_of (rooms st) r)))"
  by (auto simp add: leave_existing_def without_def Let_def AList.delete_conv'
      AList.update_conv' fun_eq_iff split: option.split)

lemma leave_existing_sockets:
  "sockets (leave_existing s r st) =
     (if r = Str s then sockets st
      else AList.map_entry s (\<lambda>k. k\<lparr>srooms := removeAll r (srooms k)\<rparr>) (sockets st))"
  by (simp add: leave_existing_def socket_leave_def Let_def split: option.split)

lemma leave_existing_outbox_emitted:
  "outbox (leave_existing s r st) =
     outbox st @
     (if r = Str s then []
      else case map_of (rooms st) r of
        None \<Rightarrow> []
      | Some rd \<Rightarrow>
          if AList.delete s (participants rd) = [] then []
          else [\<lparr>recipients = socket_to s r (socket_leave s r st),
                 body = UserLeft (map snd (AList.delete s (participants rd)))\<rparr>])"
  by (simp add: leave_existing_def socket_to_emit_def Let_def split: option.split)

lemma leave_existing_outbox:
  assumes "distinct (map fst (sockets st))"
  shows "outbox (leave_existing s r st) =
     outbox st @
     (if r = Str s then []
      else case map_of (rooms st) r of
        None \<Rightarrow> []
      | Some rd \<Rightarrow>
          if AList.delete s (participants rd) = [] then []
          else [\<lparr>recipients = removeAll s (socket_to s r st),
                 body = UserLeft (map snd (AList.delete s (participants rd)))\<rparr>])"
  using socket_to_socket_leave [OF assms]
  by (simp add: leave_existing_outbox_emitted split: option.split)

lemma map_entry_same: "(\<And>k. f k = k) \<Longrightarrow> AList.map_entry s f xs = xs"
  by (induction xs) auto

lemma map_entry_twice:
  "AList.map_entry s f (AList.map_entry s g xs) = AList.map_entry s (\<lambda>k. f (g k)) xs"
  by (induction xs) auto

lemma leave_existing_own [simp]: "leave_existing s (Str s) st = st"
  by (simp add: leave_existing_def)

lemma fold_leave_own: "\<forall>x\<in>set xs. x = Str s \<Longrightarrow> fold (leave_existing s) xs st = st"
  by (induction xs arbitrary: st) auto

lemma fold_leave_rooms:
  "map_of (rooms (fold (leave_existing s) xs st)) r =
     (if r \<in> set xs \<and> r \<noteq> Str s then without s (map_of (rooms st) r)
      else map_of (rooms st) r)"
proof (induction xs arbitrary: st)
  case Nil
  show ?case by simp
next
  case (Cons x xs)
  show ?case
    by (simp add: Cons.IH leave_existing_rooms without_idem)
qed

lemma fold_leave_sockets:
  "sockets (fold (leave_existing s) xs st) =
     AList.map_entry s
       (\<lambda>k. k\<lparr>srooms := filter (\<lambda>x. x \<notin> set xs \<or> x = Str s) (srooms k)\<rparr>) (sockets st)"
proof (induction xs arbitrary: st)
  case Nil
  show ?case by (simp add: map_entry_same)
next
  case (Cons x xs)
  have eq: "filter (\<lambda>y. y \<notin> set xs \<or> y = Str s) (removeAll x ys) =
      filter (\<lambda>y. y \<notin> set (x # xs) \<or> y = Str s) ys" if "x \<noteq> Str s" for ys
    using that by (induction ys) auto
  have own: "filter (\<lambda>y. y \<notin> set xs \<or> y = Str s) ys =
      filter (\<lambda>y. y \<notin> set (x # xs) \<or> y = Str s) ys" if "x = Str s" for ys
    using that by (induction ys) auto
  show ?case
  proof (cases "x = Str s")
    case True
    then show ?thesis using own by (simp add: Cons.IH)
  next
    case False
    then show ?thesis
      using eq by (simp add: Cons.IH leave_existing_sockets map_entry_twice)
  qed
qed

text \<open>The user-left messages.\<close>

definition is_left :: "emitted \<Rightarrow> bool" where
  "is_left m = (case body m of UserLeft ps \<Rightarrow> True | _ \<Rightarrow> False)"


text \<open>
  The record a join inserts, and the room entry after the insertion, from the result of
  \<^verbatim>\<open>rooms.get\<close> before it (a missing room is created).
\<close>

definition fresh :: "string \<Rightarrow> jsv \<Rightarrow> nat \<Rightarrow> participant" where
  "fresh s un now = \<lparr>pid = s, pname = un, isTalking = False, joinedAt = now\<rparr>"

definition enter :: "string \<Rightarrow> jsv \<Rightarrow> jsv \<Rightarrow> nat \<Rightarrow> room option \<Rightarrow> room" where
  "enter s r un now ro =
     (case ro of
        None \<Rightarrow> \<lparr>name = r, participants = [(s, fresh s un now)], createdAt = now\<rparr>
      | Some rd \<Rightarrow> rd\<lparr>participants := AList.update s (fresh s un now) (participants rd)\<rparr>)"

lemma join_room_result:
  assumes "join_room s now (Some ob) st = Inr st'"
  defines "r \<equiv> get_prop ob ''room''" and "un \<equiv> get_prop ob ''userName''"
    and "st1 \<equiv> leave_all_existing s st"
  shows "map_of (rooms st') = (map_of (rooms st1))(r \<mapsto> enter s r un now (map_of (rooms st1) r))"
    and "sockets st' = AList.map_entry s
           (\<lambda>k. k\<lparr>srooms := (if r \<in> set (srooms k) then srooms k else srooms k @ [r]),
                   userName := un, currentRoom := r\<rparr>) (sockets st1)"
    and "outbox st' = outbox st1 @
           [\<lparr>recipients = members_of r st',
             body = UserJoined (map snd (participants (enter s r un now (map_of (rooms st1) r))))\<rparr>]"
proof -
  show "map_of (rooms st') = (map_of (rooms st1))(r \<mapsto> enter s r un now (map_of (rooms st1) r))"
    using assms(1) unfolding r_def un_def st1_def
    by (auto simp add: join_room_def Let_def enter_def fresh_def AList.update_conv' io_to_emit_def
        split: option.splits if_splits)
  show "sockets st' = AList.map_entry s
           (\<lambda>k. k\<lparr>srooms := (if r \<in> set (srooms k) then srooms k else srooms k @ [r]),
                   userName := un, currentRoom := r\<rparr>) (sockets st1)"
    using assms(1) unfolding r_def un_def st1_def
    by (auto simp add: join_room_def Let_def socket_join_def map_entry_twice io_to_emit_def
        split: option.splits if_splits)
  show "outbox st' = outbox st1 @
           [\<lparr>recipients = members_of r st',
             body = UserJoined (map snd (participants (enter s r un now (map_of (rooms st1) r))))\<rparr>]"
    using assms(1) unfolding r_def un_def st1_def
    by (auto simp add: join_room_def Let_def enter_def fresh_def AList.update_conv' io_to_emit_def
        members_of_def split: option.splits if_splits)
qed

lemma socket_views_other_fields [simp]:
  "socket_rooms (st\<lparr>rooms := rs\<rparr>) = socket_rooms st"
  "socket_rooms (st\<lparr>outbox := ob\<rparr>) = socket_rooms st"
  "is_connected (st\<lparr>rooms := rs\<rparr>) = is_connected st"
  "is_connected (st\<lparr>outbox := ob\<rparr>) = is_connected st"
  "socket_currentRoom (st\<lparr>rooms := rs\<rparr>) = socket_currentRoom st"
  "socket_currentRoom (st\<lparr>outbox := ob\<rparr>) = socket_currentRoom st"
  "socket_userName (st\<lparr>rooms := rs\<rparr>) = socket_userName st"
  "socket_userName (st\<lparr>outbox := ob\<rparr>) = socket_userName st"
  by (simp_all add: socket_rooms_def is_connected_def socket_currentRoom_def
      socket_userName_def fun_eq_iff)

lemma room_members_other_fields [simp]:
  "room_members r (st\<lparr>sockets := ss\<rparr>) = room_members r st"
  "room_members r (st\<lparr>outbox := ob\<rparr>) = room_members r st"
  by (simp_all add: room_members_def)

lemma socket_rooms_map_entry:
  assumes "sockets st' = AList.map_entry s f (sockets st)"
  shows "socket_rooms st' t =
     (if t = s then (case map_of (sockets st) s of None \<Rightarrow> [] | Some k \<Rightarrow> srooms (f k))
      else socket_rooms st t)"
  by (simp add: socket_rooms_def assms AList.map_of_map_entry split: option.split)

lemma is_connected_map_entry:
  assumes "sockets st' = AList.map_entry s f (sockets st)"
  shows "is_connected st' t =
     (if t = s then (case map_of (sockets st) s of None \<Rightarrow> False | Some k \<Rightarrow> connected (f k))
      else is_connected st t)"
  by (simp add: is_connected_def assms AList.map_of_map_entry split: option.split)

lemma room_members_without:
  "(case without s ro of None \<Rightarrow> [] | Some rd \<Rightarrow> map fst (participants rd)) =
   removeAll s (case ro of None \<Rightarrow> [] | Some rd \<Rightarrow> map fst (participants rd))"
  by (auto simp add: without_def AList.delete_keys [symmetric] split: option.split)

subsection \<open>handleUserLeave\<close>

lemma handleUserLeave_members:
  "room_members r' (handleUserLeave s r st) =
     (if r' = r then removeAll s (room_members r st) else room_members r' st)"
  by (simp add: room_members_def handleUserLeave_rooms room_members_without)

lemma handleUserLeave_socket_rooms:
  "socket_rooms (handleUserLeave s r st) t =
     (if t = s then removeAll r (socket_rooms st s) else socket_rooms st t)"
  by (subst socket_rooms_map_entry [OF handleUserLeave_sockets])
    (simp add: socket_rooms_def split: option.split)

lemma handleUserLeave_connected:
  "is_connected (handleUserLeave s r st) t = is_connected st t"
  by (subst is_connected_map_entry [OF handleUserLeave_sockets])
    (simp add: is_connected_def split: option.split)

subsection \<open>The loop of join-room\<close>

lemma leave_all_members:
  "room_members r (leave_all_existing s st) =
     (if r \<in> set (socket_rooms st s) \<and> r \<noteq> Str s then removeAll s (room_members r st)
      else room_members r st)"
  by (simp add: room_members_def leave_all_existing_def fold_leave_rooms room_members_without)

lemma filter_own: "filter (\<lambda>x. x \<in> set xs \<longrightarrow> x = a) xs = filter (\<lambda>x. x = a) xs"
  by (rule filter_cong) auto

lemma leave_all_socket_rooms:
  "socket_rooms (leave_all_existing s st) t =
     (if t = s then filter (\<lambda>x. x = Str s) (socket_rooms st s) else socket_rooms st t)"
  unfolding leave_all_existing_def
  by (subst socket_rooms_map_entry [OF fold_leave_sockets])
    (simp add: socket_rooms_def filter_own split: option.split)

lemma leave_all_connected:
  "is_connected (leave_all_existing s st) t = is_connected st t"
  unfolding leave_all_existing_def
  by (subst is_connected_map_entry [OF fold_leave_sockets])
    (simp add: is_connected_def split: option.split)

lemma leave_all_known:
  "(map_of (sockets (leave_all_existing s st)) t = None) = (map_of (sockets st) t = None)"
  unfolding leave_all_existing_def
  by (simp add: fold_leave_sockets AList.map_of_map_entry split: option.split)

subsection \<open>join-room\<close>

lemma enter_members:
  "map fst (participants (enter s r un now ro)) =
     (let m = (case ro of None \<Rightarrow> [] | Some rd \<Rightarrow> map fst (participants rd))
      in if s \<in> set m then m else m @ [s])"
  by (simp add: enter_def AList.update_keys Let_def split: option.split)

lemma join_room_members:
  assumes "join_room s now (Some ob) st = Inr st'"
  shows "room_members r' st' =
     (if r' = get_prop ob ''room''
      then (let m = room_members r' (leave_all_existing s st)
            in if s \<in> set m then m else m @ [s])
      else room_members r' (leave_all_existing s st))"
  by (simp add: room_members_def join_room_result(1) [OF assms] enter_members)

lemma join_room_socket_rooms:
  assumes "join_room s now (Some ob) st = Inr st'"
  shows "socket_rooms st' t =
     (if t = s \<and> map_of (sockets st) s \<noteq> None
      then (let xs = socket_rooms (leave_all_existing s st) s
            in if get_prop ob ''room'' \<in> set xs then xs else xs @ [get_prop ob ''room''])
      else socket_rooms (leave_all_existing s st) t)"
  using leave_all_known [of s st s]
  by (subst socket_rooms_map_entry [OF join_room_result(2) [OF assms]])
    (auto simp add: socket_rooms_def Let_def split: option.split)

lemma join_room_connected:
  assumes "join_room s now (Some ob) st = Inr st'"
  shows "is_connected st' t = is_connected st t"
  using leave_all_connected [of s st t]
  by (subst is_connected_map_entry [OF join_room_result(2) [OF assms]])
    (auto simp add: is_connected_def split: option.split)

subsection \<open>disconnect\<close>

lemma currentRoom_after_close:
  "socket_currentRoom (st\<lparr>sockets := AList.map_entry s
       (\<lambda>k. k\<lparr>srooms := [], connected := False\<rparr>) (sockets st)\<rparr>) s = socket_currentRoom st s"
  by (simp add: socket_currentRoom_def AList.map_of_map_entry split: option.split)

lemma close_twice:
  "(\<lambda>k::socket. k\<lparr>connected := False, srooms := []\<rparr>) =
   (\<lambda>k. k\<lparr>srooms := [], connected := False\<rparr>)"
  by (rule ext) simp

lemma disconnect_sockets:
  "sockets (disconnect s st) =
     AList.map_entry s (\<lambda>k. k\<lparr>srooms := [], connected := False\<rparr>) (sockets st)"
  by (simp add: disconnect_def Let_def handleUserLeave_sockets map_entry_twice close_twice)

lemma disconnect_rooms:
  "map_of (rooms (disconnect s st)) =
     (if truthy (socket_currentRoom st s)
      then (map_of (rooms st))(socket_currentRoom st s :=
              without s (map_of (rooms st) (socket_currentRoom st s)))
      else map_of (rooms st))"
  by (simp add: disconnect_def Let_def handleUserLeave_rooms currentRoom_after_close)

lemma disconnect_members:
  "room_members r (disconnect s st) =
     (if truthy (socket_currentRoom st s) \<and> r = socket_currentRoom st s
      then removeAll s (room_members r st) else room_members r st)"
  by (simp add: room_members_def disconnect_rooms room_members_without)

lemma disconnect_socket_rooms:
  "socket_rooms (disconnect s st) t = (if t = s then [] else socket_rooms st t)"
  by (subst socket_rooms_map_entry [OF disconnect_sockets])
    (simp add: socket_rooms_def split: option.split)

lemma disconnect_connected:
  "is_connected (disconnect s st) t = (t \<noteq> s \<and> is_connected st t)"
  by (subst is_connected_map_entry [OF disconnect_sockets])
    (simp add: is_connected_def split: option.split)

subsection \<open>connect\<close>

lemma connect_members [simp]: "room_members r (connect s st) = room_members r st"
  by (simp add: connect_def room_members_def)

lemma connect_rooms [simp]: "rooms (connect s st) = rooms st"
  by (simp add: connect_def)

lemma connect_socket_rooms:
  "socket_rooms (connect s st) t =
     (if t = s \<and> map_of (sockets st) s = None then [Str s] else socket_rooms st t)"
  by (auto simp add: connect_def socket_rooms_def map_add_def split: option.split)

lemma connect_connected:
  "is_connected (connect s st) t =
     (if t = s \<and> map_of (sockets st) s = None then True else is_connected st t)"
  by (auto simp add: connect_def is_connected_def map_add_def split: option.split)

subsection \<open>start-talking and stop-talking\<close>

lemma set_talking_sockets:
  "set_talking flag s (Some ob) st = Inr st' \<Longrightarrow> sockets st' = sockets st"
  by (auto simp add: set_talking_def Let_def split: option.splits)

lemma set_talking_rooms:
  assumes "set_talking flag s (Some ob) st = Inr st'"
  shows "map_of (rooms st') =
     (case map_of (rooms st) (get_prop ob ''room'') of
        None \<Rightarrow> map_of (rooms st)
      | Some rd \<Rightarrow>
          (case map_of (participants rd) s of
             None \<Rightarrow> map_of (rooms st)
           | Some u \<Rightarrow> (map_of (rooms st))(get_prop ob ''room'' \<mapsto>
               rd\<lparr>participants := AList.update s (u\<lparr>isTalking := flag\<rparr>) (participants rd)\<rparr>)))"
  using assms
  by (auto simp add: set_talking_def Let_def AList.update_conv' split: option.splits)

lemma map_of_keys: "map_of ps s = Some u \<Longrightarrow> s \<in> fst ` set ps"
  by (metis map_of_eq_None_iff option.distinct(1))

lemma set_talking_members:
  assumes "set_talking flag s (Some ob) st = Inr st'"
  shows "room_members r st' = room_members r st"
  by (auto simp add: room_members_def set_talking_rooms [OF assms] AList.update_keys
      split: option.split dest: map_of_keys)

subsection \<open>The relays\<close>

lemma relay_fields:
  "offer s (Some ob) st = Inr st' \<Longrightarrow> rooms st' = rooms st \<and> sockets st' = sockets st"
  "answer s (Some ob) st = Inr st' \<Longrightarrow> rooms st' = rooms st \<and> sockets st' = sockets st"
  "ice_candidate s (Some ob) st = Inr st' \<Longrightarrow> rooms st' = rooms st \<and> sockets st' = sockets st"
  by (auto simp add: offer_def answer_def ice_candidate_def)

subsection \<open>The sweep\<close>

lemma fold_delete_map_of:
  "map_of (fold AList.delete ks al) k = (if k \<in> set ks then None else map_of al k)"
  by (induction ks arbitrary: al) (auto simp add: AList.delete_conv')

lemma cleanup_rooms:
  "map_of (rooms (cleanup st)) r = Some rd \<Longrightarrow> map_of (rooms st) r = Some rd"
  by (auto simp add: cleanup_def Let_def fold_delete_map_of split: if_splits)

lemma cleanup_sockets [simp]: "sockets (cleanup st) = sockets st"
  by (simp add: cleanup_def Let_def)

lemma cleanup_members:
  "room_members r (cleanup st) = room_members r st \<or> room_members r (cleanup st) = []"
  by (auto simp add: room_members_def cleanup_def Let_def fold_delete_map_of split: option.split)

section \<open>Invariants of the states a run can reach\<close>

text \<open>
  A room entry is well kept when it has a participant, no socket id twice, and every
  record under the id it carries.
\<close>

definition well_kept :: "room \<Rightarrow> bool" where
  "well_kept rd =
     (participants rd \<noteq> [] \<and> distinct (map fst (participants rd)) \<and>
      (\<forall>e\<in>set (participants rd). pid (snd e) = fst e))"

definition rooms_well_kept :: "state \<Rightarrow> bool" where
  "rooms_well_kept st = (\<forall>r rd. map_of (rooms st) r = Some rd \<longrightarrow> well_kept rd)"

lemma set_update_subset: "set (AList.update k v al) \<subseteq> insert (k, v) (set al)"
  by (induction al) auto

lemma in_deleteD: "e \<in> set (AList.delete k al) \<Longrightarrow> e \<in> set al"
  by (auto simp add: AList.delete_eq)

lemma well_kept_without:
  assumes "ro = None \<or> (\<exists>rd. ro = Some rd \<and> well_kept rd)" and "without s ro = Some rd'"
  shows "well_kept rd'"
proof -
  obtain rd where rd: "ro = Some rd" "well_kept rd"
    using assms by (auto simp add: without_def)
  have ps: "participants rd' = AList.delete s (participants rd)" "participants rd' \<noteq> []"
    using assms(2) rd(1) by (auto simp add: without_def split: if_splits)
  have "\<forall>e\<in>set (participants rd'). pid (snd e) = fst e"
    using rd(2) ps(1) in_deleteD [of _ s "participants rd"] by (auto simp add: well_kept_def)
  then show ?thesis
    using rd(2) ps by (simp add: well_kept_def AList.distinct_delete)
qed

lemma well_kept_enter:
  assumes "ro = None \<or> (\<exists>rd. ro = Some rd \<and> well_kept rd)"
  shows "well_kept (enter s r un now ro)"
proof (cases ro)
  case None
  then show ?thesis by (simp add: enter_def well_kept_def fresh_def)
next
  case (Some rd)
  then have wk: "well_kept rd" using assms by simp
  have "\<forall>e\<in>set (AList.update s (fresh s un now) (participants rd)). pid (snd e) = fst e"
    using wk set_update_subset [of s "fresh s un now" "participants rd"]
    by (auto simp add: well_kept_def fresh_def)
  then show ?thesis
    using wk Some by (simp add: enter_def well_kept_def AList.distinct_update)
qed

lemma well_kept_talking:
  assumes "well_kept rd" and "map_of (participants rd) s = Some u"
  shows "well_kept (rd\<lparr>participants := AList.update s (u\<lparr>isTalking := flag\<rparr>) (participants rd)\<rparr>)"
proof -
  have "(s, u) \<in> set (participants rd)" using assms(2) by (rule map_of_SomeD)
  then have "pid u = s" using assms(1) by (auto simp add: well_kept_def)
  then have "\<forall>e\<in>set (AList.update s (u\<lparr>isTalking := flag\<rparr>) (participants rd)).
      pid (snd e) = fst e"
    using assms(1) set_update_subset [of s "u\<lparr>isTalking := flag\<rparr>" "participants rd"]
    by (auto simp add: well_kept_def)
  then show ?thesis
    using assms(1) by (simp add: well_kept_def AList.distinct_update)
qed

lemma well_kept_cases:
  "rooms_well_kept st \<Longrightarrow>
     map_of (rooms st) r = None \<or> (\<exists>rd. map_of (rooms st) r = Some rd \<and> well_kept rd)"
  by (cases "map_of (rooms st) r") (simp_all add: rooms_well_kept_def)

lemma well_kept_handleUserLeave:
  assumes "rooms_well_kept st"
  shows "rooms_well_kept (handleUserLeave s r st)"
  unfolding rooms_well_kept_def handleUserLeave_rooms
proof (intro allI impI)
  fix r' rd
  assume h: "((map_of (rooms st))(r := without s (map_of (rooms st) r))) r' = Some rd"
  show "well_kept rd"
  proof (cases "r' = r")
    case True
    then show ?thesis
      using h well_kept_without [OF well_kept_cases [OF assms]] by simp
  next
    case False
    then show ?thesis using h assms by (simp add: rooms_well_kept_def)
  qed
qed

lemma well_kept_leave_all:
  assumes "rooms_well_kept st"
  shows "rooms_well_kept (leave_all_existing s st)"
  unfolding rooms_well_kept_def leave_all_existing_def fold_leave_rooms
proof (intro allI impI)
  fix r rd
  assume h: "(if r \<in> set (socket_rooms st s) \<and> r \<noteq> Str s
      then without s (map_of (rooms st) r) else map_of (rooms st) r) = Some rd"
  show "well_kept rd"
  proof (cases "r \<in> set (socket_rooms st s) \<and> r \<noteq> Str s")
    case True
    then show ?thesis
      using h well_kept_without [OF well_kept_cases [OF assms]] by simp
  next
    case False
    then show ?thesis using h assms by (auto simp add: rooms_well_kept_def split: if_splits)
  qed
qed

lemma well_kept_join_room:
  assumes "rooms_well_kept st" and "join_room s now (Some ob) st = Inr st'"
  shows "rooms_well_kept st'"
  unfolding rooms_well_kept_def join_room_result(1) [OF assms(2)]
proof (intro allI impI)
  fix r rd
  let ?st1 = "leave_all_existing s st"
  let ?r = "get_prop ob ''room''"
  assume h: "((map_of (rooms ?st1))(?r \<mapsto>
      enter s ?r (get_prop ob ''userName'') now (map_of (rooms ?st1) ?r))) r = Some rd"
  have wk: "rooms_well_kept ?st1" using assms(1) by (rule well_kept_leave_all)
  show "well_kept rd"
  proof (cases "r = ?r")
    case True
    then show ?thesis
      using h well_kept_enter [OF well_kept_cases [OF wk]] by auto
  next
    case False
    then show ?thesis using h wk by (simp add: rooms_well_kept_def)
  qed
qed

lemma well_kept_disconnect:
  assumes "rooms_well_kept st"
  shows "rooms_well_kept (disconnect s st)"
  unfolding rooms_well_kept_def disconnect_rooms
proof (intro allI impI)
  fix r rd
  let ?c = "socket_currentRoom st s"
  assume h: "(if truthy ?c then (map_of (rooms st))(?c := without s (map_of (rooms st) ?c))
      else map_of (rooms st)) r = Some rd"
  show "well_kept rd"
  proof (cases "truthy ?c \<and> r = ?c")
    case True
    then show ?thesis
      using h well_kept_without [OF well_kept_cases [OF assms]] by simp
  next
    case False
    then show ?thesis using h assms by (auto simp add: rooms_well_kept_def split: if_splits)
  qed
qed

lemma well_kept_set_talking:
  assumes "rooms_well_kept st" and "set_talking flag s (Some ob) st = Inr st'"
  shows "rooms_well_kept st'"
  unfolding rooms_well_kept_def
proof (intro allI impI)
  fix r rd
  assume h: "map_of (rooms st') r = Some rd"
  show "well_kept rd"
  proof (cases "map_of (rooms st) r = Some rd")
    case True
    then show ?thesis using assms(1) by (simp add: rooms_well_kept_def)
  next
    case False
    then obtain rd0 u where "map_of (rooms st) (get_prop ob ''room'') = Some rd0"
      "map_of (participants rd0) s = Some u"
      "rd = rd0\<lparr>participants := AList.update s (u\<lparr>isTalking := flag\<rparr>) (participants rd0)\<rparr>"
      using h unfolding set_talking_rooms [OF assms(2)]
      by (auto split: option.splits if_splits)
    then show ?thesis
      using assms(1) well_kept_talking by (simp add: rooms_well_kept_def)
  qed
qed

lemma well_kept_cleanup: "rooms_well_kept st \<Longrightarrow> rooms_well_kept (cleanup st)"
  unfolding rooms_well_kept_def by (blast dest: cleanup_rooms)

lemma step_sender:
  assumes "step e st = Inr st'" and "sender e = Some s"
  shows "(\<not> is_connected st s \<and> st' = st) \<or> (is_connected st s \<and> handle e st = Inr st')"
  using assms by (auto simp add: step_def split: if_splits)

lemma step_cases:
  assumes "step e st = Inr st'"
  obtains (ignored) "st' = st"
  | (connect) s where "st' = connect s st"
  | (join) s now ob where "is_connected st s" "join_room s now (Some ob) st = Inr st'"
  | (talk) flag s ob where "is_connected st s" "set_talking flag s (Some ob) st = Inr st'"
  | (relay) "rooms st' = rooms st" "sockets st' = sockets st"
  | (leave) s r where "is_connected st s" "st' = handleUserLeave s r st"
  | (disconnect) s where "is_connected st s" "st' = disconnect s st"
  | (sweep) "st' = cleanup st"
proof (cases e)
  case (Connect s)
  then have "st' = connect s st" using assms by (auto simp add: step_def)
  then show ?thesis by (rule connect)
next
  case (JoinRoom s now p)
  then consider "st' = st" | "is_connected st s" "join_room s now p st = Inr st'"
    using step_sender [OF assms, of s] by auto
  then show ?thesis
  proof cases
    case 1
    then show ?thesis by (rule ignored)
  next
    case 2
    then obtain ob where "p = Some ob" by (cases p) (simp_all add: join_room_def)
    then show ?thesis using 2 join by blast
  qed
next
  case (StartTalking s p)
  then consider "st' = st" | "is_connected st s" "set_talking True s p st = Inr st'"
    using step_sender [OF assms, of s] by (auto simp add: start_talking_def)
  then show ?thesis
  proof cases
    case 1
    then show ?thesis by (rule ignored)
  next
    case 2
    then obtain ob where "p = Some ob" by (cases p) (simp_all add: set_talking_def)
    then show ?thesis using 2 talk by blast
  qed
next
  case (StopTalking s p)
  then consider "st' = st" | "is_connected st s" "set_talking False s p st = Inr st'"
    using step_sender [OF assms, of s] by (auto simp add: stop_talking_def)
  then show ?thesis
  proof cases
    case 1
    then show ?thesis by (rule ignored)
  next
    case 2
    then obtain ob where "p = Some ob" by (cases p) (simp_all add: set_talking_def)
    then show ?thesis using 2 talk by blast
  qed
next
  case (Offer s p)
  then consider "st' = st" | "offer s p st = Inr st'"
    using step_sender [OF assms, of s] by auto
  then show ?thesis
  proof cases
    case 1
    then show ?thesis by (rule ignored)
  next
    case 2
    then obtain ob where "p = Some ob" by (cases p) (simp_all add: offer_def)
    then show ?thesis using 2 relay_fields(1) relay by blast
  qed
next
  case (Answer s p)
  then consider "st' = st" | "answer s p st = Inr st'"
    using step_sender [OF assms, of s] by auto
  then show ?thesis
  proof cases
    case 1
    then show ?thesis by (rule ignored)
  next
    case 2
    then obtain ob where "p = Some ob" by (cases p) (simp_all add: answer_def)
    then show ?thesis using 2 relay_fields(2) relay by blast
  qed
next
  case (IceCandidate s p)
  then consider "st' = st" | "ice_candidate s p st = Inr st'"
    using step_sender [OF assms, of s] by auto
  then show ?thesis
  proof cases
    case 1
    then show ?thesis by (rule ignored)
  next
    case 2
    then obtain ob where "p = Some ob" by (cases p) (simp_all add: ice_candidate_def)
    then show ?thesis using 2 relay_fields(3) relay by blast
  qed
next
  case (LeaveRoom s p)
  then consider "st' = st" | "is_connected st s" "leave_room s p st = Inr st'"
    using step_sender [OF assms, of s] by auto
  then show ?thesis
  proof cases
    case 1
    then show ?thesis by (rule ignored)
  next
    case 2
    then obtain ob where "p = Some ob" by (cases p) (simp_all add: leave_room_def)
    then have "st' = handleUserLeave s (get_prop ob ''room'') st"
      using 2 by (simp add: leave_room_def)
    then show ?thesis using 2(1) by (rule leave [rotated])
  qed
next
  case (Disconnect s)
  then consider "st' = st" | "is_connected st s" "st' = disconnect s st"
    using step_sender [OF assms, of s] by auto
  then show ?thesis
  proof cases
    case 1
    then show ?thesis by (rule ignored)
  next
    case 2
    then show ?thesis by (rule disconnect)
  qed
next
  case Sweep
  then have "st' = cleanup st" using assms by (auto simp add: step_def)
  then show ?thesis by (rule sweep)
qed

lemma well_kept_step:
  assumes "step e st = Inr st'" and "rooms_well_kept st"
  shows "rooms_well_kept st'"
  using assms(1)
proof (cases rule: step_cases)
  case ignored
  then show ?thesis using assms(2) by simp
next
  case (connect s)
  then show ?thesis using assms(2) by (simp add: rooms_well_kept_def)
next
  case (join s now ob)
  then show ?thesis using assms(2) well_kept_join_room by blast
next
  case (talk flag s ob)
  then show ?thesis using assms(2) well_kept_set_talking by blast
next
  case relay
  then show ?thesis using assms(2) by (simp add: rooms_well_kept_def)
next
  case (leave s r)
  then show ?thesis using assms(2) well_kept_handleUserLeave by blast
next
  case (disconnect s)
  then show ?thesis using assms(2) well_kept_disconnect by blast
next
  case sweep
  then show ?thesis using assms(2) well_kept_cleanup by blast
qed

text \<open>
  The registry against socket.io's rooms: every participant is a socket the server has
  seen; a connected participant of a room is in the socket.io room of that name; a
  socket is in at most one socket.io room besides the room of its own id, and a
  participant of at most one registry room besides the room of that id.
\<close>

definition members_known :: "state \<Rightarrow> bool" where
  "members_known st =
     (\<forall>s r. s \<in> set (room_members r st) \<longrightarrow> map_of (sockets st) s \<noteq> None)"

definition joined_transport :: "state \<Rightarrow> bool" where
  "joined_transport st =
     (\<forall>s r. is_connected st s \<and> s \<in> set (room_members r st) \<longrightarrow>
        r \<in> set (socket_rooms st s))"

definition single_transport :: "state \<Rightarrow> bool" where
  "single_transport st =
     (\<forall>s. length (filter (\<lambda>x. x \<noteq> Str s) (socket_rooms st s)) \<le> 1)"

definition single_room :: "state \<Rightarrow> bool" where
  "single_room st =
     (\<forall>s r1 r2. s \<in> set (room_members r1 st) \<and> s \<in> set (room_members r2 st) \<and>
        r1 \<noteq> Str s \<and> r2 \<noteq> Str s \<longrightarrow> r1 = r2)"

lemma known_map_entry:
  "sockets st' = AList.map_entry s f (sockets st) \<Longrightarrow>
     (map_of (sockets st') t = None) = (map_of (sockets st) t = None)"
  by (simp add: AList.map_of_map_entry split: option.split)

lemma connected_known: "is_connected st s \<Longrightarrow> map_of (sockets st) s \<noteq> None"
  by (auto simp add: is_connected_def split: option.splits)

lemma connect_known:
  "(map_of (sockets (connect s st)) t = None) = (map_of (sockets st) t = None \<and> t \<noteq> s)"
  by (auto simp add: connect_def map_add_def split: option.split)

lemma views_same_fields:
  assumes "rooms st' = rooms st" and "sockets st' = sockets st"
  shows "room_members r st' = room_members r st" and "socket_rooms st' t = socket_rooms st t"
    and "is_connected st' t = is_connected st t"
  using assms by (simp_all add: room_members_def socket_rooms_def is_connected_def)

lemma members_known_step:
  assumes "step e st = Inr st'" and "members_known st"
  shows "members_known st'"
  using assms(1)
proof (cases rule: step_cases)
  case ignored
  then show ?thesis using assms(2) by simp
next
  case (connect s)
  then show ?thesis using assms(2) by (auto simp add: members_known_def connect_known)
next
  case (join s now ob)
  have k: "(map_of (sockets st') t = None) = (map_of (sockets st) t = None)" for t
    using known_map_entry [OF join_room_result(2) [OF join(2)]] leave_all_known by simp
  show ?thesis
    using assms(2) connected_known [OF join(1)] unfolding members_known_def k
    by (auto simp add: join_room_members [OF join(2)] leave_all_members Let_def
        split: if_splits)
next
  case (talk flag s ob)
  then show ?thesis
    using assms(2)
    by (simp add: members_known_def set_talking_members set_talking_sockets)
next
  case relay
  then show ?thesis using assms(2) by (simp add: members_known_def room_members_def)
next
  case (leave s r)
  have k: "(map_of (sockets st') t = None) = (map_of (sockets st) t = None)" for t
    using known_map_entry [OF handleUserLeave_sockets] leave(2) by simp
  show ?thesis
    using assms(2) unfolding members_known_def k
    by (auto simp add: leave(2) handleUserLeave_members split: if_splits)
next
  case (disconnect s)
  have k: "(map_of (sockets st') t = None) = (map_of (sockets st) t = None)" for t
    using known_map_entry [OF disconnect_sockets] disconnect(2) by simp
  show ?thesis
    using assms(2) unfolding members_known_def k
    by (auto simp add: disconnect(2) disconnect_members split: if_splits)
next
  case sweep
  then show ?thesis
    using assms(2) cleanup_members [of _ st]
    by (auto simp add: members_known_def) (metis empty_iff list.set(1))
qed

lemma joined_transport_join:
  assumes "joined_transport st" and "is_connected st s"
    and "join_room s now (Some ob) st = Inr st'"
  shows "joined_transport st'"
  unfolding joined_transport_def
proof (intro allI impI)
  fix t r
  let ?R = "get_prop ob ''room''"
  assume h: "is_connected st' t \<and> t \<in> set (room_members r st')"
  have known: "map_of (sockets st) s \<noteq> None" using assms(2) by (rule connected_known)
  have conn: "is_connected st t" using h join_room_connected [OF assms(3)] by simp
  show "r \<in> set (socket_rooms st' t)"
  proof (cases "t = s")
    case True
    have sr: "socket_rooms st' s =
        (let xs = filter (\<lambda>x. x = Str s) (socket_rooms st s)
         in if ?R \<in> set xs then xs else xs @ [?R])"
      using known by (simp add: join_room_socket_rooms [OF assms(3)] leave_all_socket_rooms)
    show ?thesis
    proof (cases "r = ?R")
      case True
      then show ?thesis using sr \<open>t = s\<close> by (auto simp add: Let_def)
    next
      case False
      then have m1: "s \<in> set (room_members r (leave_all_existing s st))"
        using h \<open>t = s\<close> by (simp add: join_room_members [OF assms(3)])
      then have m: "s \<in> set (room_members r st)"
        by (simp add: leave_all_members split: if_splits)
      then have "r \<in> set (socket_rooms st s)"
        using assms(1,2) by (simp add: joined_transport_def)
      then have "r = Str s" using m1 by (simp add: leave_all_members split: if_splits)
      then show ?thesis
        using sr \<open>t = s\<close> \<open>r \<in> set (socket_rooms st s)\<close> by (simp add: Let_def)
    qed
  next
    case False
    then have "t \<in> set (room_members r (leave_all_existing s st))"
      using h by (simp add: join_room_members [OF assms(3)] Let_def split: if_splits)
    then have "t \<in> set (room_members r st)"
      by (simp add: leave_all_members split: if_splits)
    then have "r \<in> set (socket_rooms st t)"
      using assms(1) conn by (simp add: joined_transport_def)
    then show ?thesis
      using False by (simp add: join_room_socket_rooms [OF assms(3)] leave_all_socket_rooms)
  qed
qed

lemma joined_transport_step:
  assumes "step e st = Inr st'" and "joined_transport st" and "members_known st"
  shows "joined_transport st'"
  using assms(1)
proof (cases rule: step_cases)
  case ignored
  then show ?thesis using assms(2) by simp
next
  case (connect s)
  show ?thesis
    unfolding joined_transport_def
  proof (intro allI impI)
    fix t r
    assume h: "is_connected st' t \<and> t \<in> set (room_members r st')"
    then have m: "t \<in> set (room_members r st)" using connect by simp
    then have "map_of (sockets st) t \<noteq> None" using assms(3) by (auto simp add: members_known_def)
    then have "is_connected st' t = is_connected st t"
      by (cases "t = s") (auto simp add: connect connect_connected)
    moreover have "socket_rooms st' t = socket_rooms st t"
      using \<open>map_of (sockets st) t \<noteq> None\<close>
      by (cases "t = s") (auto simp add: connect connect_socket_rooms)
    ultimately have "is_connected st' t = is_connected st t"
      "socket_rooms st' t = socket_rooms st t" by simp_all
    then have "is_connected st t" "socket_rooms st' t = socket_rooms st t"
      using h by simp_all
    then show "r \<in> set (socket_rooms st' t)"
      using assms(2) m by (simp add: joined_transport_def)
  qed
next
  case (join s now ob)
  then show ?thesis using assms(2) joined_transport_join by blast
next
  case (talk flag s ob)
  have "socket_rooms st' t = socket_rooms st t" "is_connected st' t = is_connected st t" for t
    using set_talking_sockets [OF talk(2)] by (simp_all add: socket_rooms_def is_connected_def)
  then show ?thesis
    using assms(2) by (simp add: joined_transport_def set_talking_members [OF talk(2)])
next
  case relay
  then show ?thesis
    using assms(2) by (simp add: joined_transport_def views_same_fields [OF relay])
next
  case (leave s r)
  show ?thesis
    unfolding joined_transport_def
  proof (intro allI impI)
    fix t r'
    assume h: "is_connected st' t \<and> t \<in> set (room_members r' st')"
    then have "is_connected st t" "t \<in> set (room_members r' st)" "t = s \<longrightarrow> r' \<noteq> r"
      by (auto simp add: leave(2) handleUserLeave_members handleUserLeave_connected
          split: if_splits)
    then show "r' \<in> set (socket_rooms st' t)"
      using assms(2) by (auto simp add: joined_transport_def leave(2) handleUserLeave_socket_rooms)
  qed
next
  case (disconnect s)
  show ?thesis
    unfolding joined_transport_def
  proof (intro allI impI)
    fix t r'
    assume h: "is_connected st' t \<and> t \<in> set (room_members r' st')"
    then have "is_connected st t" "t \<in> set (room_members r' st)" "t \<noteq> s"
      by (auto simp add: disconnect(2) disconnect_members disconnect_connected
          split: if_splits)
    then show "r' \<in> set (socket_rooms st' t)"
      using assms(2) by (auto simp add: joined_transport_def disconnect(2) disconnect_socket_rooms)
  qed
next
  case sweep
  have "t \<in> set (room_members r (cleanup st)) \<Longrightarrow> t \<in> set (room_members r st)" for t r
    using cleanup_members [of r st] by auto
  moreover have "socket_rooms st' t = socket_rooms st t" "is_connected st' t = is_connected st t"
    for t using sweep by (simp_all add: socket_rooms_def is_connected_def)
  ultimately show ?thesis
    using assms(2) sweep by (auto simp add: joined_transport_def)
qed

lemma single_transport_step:
  assumes "step e st = Inr st'" and "single_transport st"
  shows "single_transport st'"
  using assms(1)
proof (cases rule: step_cases)
  case ignored
  then show ?thesis using assms(2) by simp
next
  case (connect s)
  then show ?thesis
    using assms(2) by (auto simp add: single_transport_def connect_socket_rooms)
next
  case (join s now ob)
  have "filter (\<lambda>x. x \<noteq> Str s) (filter (\<lambda>x. x = Str s) xs) = []" for xs
    by (induction xs) auto
  then show ?thesis
    using assms(2) unfolding single_transport_def
    by (auto simp add: join_room_socket_rooms [OF join(2)] leave_all_socket_rooms Let_def)
next
  case (talk flag s ob)
  then show ?thesis
    using assms(2) by (simp add: single_transport_def socket_rooms_def set_talking_sockets)
next
  case relay
  then show ?thesis
    using assms(2) by (simp add: single_transport_def socket_rooms_def)
next
  case (leave s r)
  have "length (filter P (removeAll r xs)) \<le> length (filter P xs)" for P and xs :: "jsv list"
    by (induction xs) auto
  then show ?thesis
    using assms(2) unfolding single_transport_def
    by (auto simp add: leave(2) handleUserLeave_socket_rooms intro: order_trans)
next
  case (disconnect s)
  then show ?thesis
    using assms(2) by (auto simp add: single_transport_def disconnect_socket_rooms)
next
  case sweep
  then show ?thesis
    using assms(2) by (simp add: single_transport_def socket_rooms_def)
qed

lemma single_room_step:
  assumes "step e st = Inr st'" and "single_room st" and "joined_transport st"
  shows "single_room st'"
  using assms(1)
proof (cases rule: step_cases)
  case ignored
  then show ?thesis using assms(2) by simp
next
  case (connect s)
  then show ?thesis using assms(2) by (simp add: single_room_def)
next
  case (join s now ob)
  have gone: "t \<in> set (room_members r (leave_all_existing s st)) \<Longrightarrow>
      t \<in> set (room_members r st) \<and> (t = s \<longrightarrow> r = Str s)" for t r
    using assms(3) join(1)
    by (auto simp add: joined_transport_def leave_all_members split: if_splits)
  show ?thesis
    unfolding single_room_def
  proof (intro allI impI)
    fix t r1 r2
    assume h: "t \<in> set (room_members r1 st') \<and> t \<in> set (room_members r2 st') \<and>
      r1 \<noteq> Str t \<and> r2 \<noteq> Str t"
    show "r1 = r2"
    proof (cases "t = s")
      case True
      then have "r1 = get_prop ob ''room''" "r2 = get_prop ob ''room''"
        using h gone [of s r1] gone [of s r2]
        by (auto simp add: join_room_members [OF join(2)] Let_def split: if_splits)
      then show ?thesis by simp
    next
      case False
      then have "t \<in> set (room_members r1 st)" "t \<in> set (room_members r2 st)"
        using h gone [of t r1] gone [of t r2]
        by (auto simp add: join_room_members [OF join(2)] Let_def split: if_splits)
      then show ?thesis using assms(2) h by (auto simp add: single_room_def)
    qed
  qed
next
  case (talk flag s ob)
  then show ?thesis
    using assms(2) by (simp add: single_room_def set_talking_members)
next
  case relay
  then show ?thesis
    using assms(2) by (simp add: single_room_def room_members_def)
next
  case (leave s r)
  have "t \<in> set (room_members r' st') \<Longrightarrow> t \<in> set (room_members r' st)" for t r'
    by (auto simp add: leave(2) handleUserLeave_members split: if_splits)
  then show ?thesis
    using assms(2) unfolding single_room_def by blast
next
  case (disconnect s)
  have "t \<in> set (room_members r' st') \<Longrightarrow> t \<in> set (room_members r' st)" for t r'
    by (auto simp add: disconnect(2) disconnect_members split: if_splits)
  then show ?thesis
    using assms(2) unfolding single_room_def by blast
next
  case sweep
  have "t \<in> set (room_members r' st') \<Longrightarrow> t \<in> set (room_members r' st)" for t r'
    using cleanup_members [of r' st] sweep by auto
  then show ?thesis
    using assms(2) unfolding single_room_def by blast
qed

text \<open>
  Both association lists hold every key once, as a JavaScript Map does: the handlers
  change them only through \<open>AList.update\<close>, \<open>AList.delete\<close> and \<open>AList.map_entry\<close>,
  and a connection is added under an id that is new.
\<close>

definition keys_distinct :: "state \<Rightarrow> bool" where
  "keys_distinct st = (distinct (map fst (rooms st)) \<and> distinct (map fst (sockets st)))"

lemma keys_handleUserLeave:
  assumes "keys_distinct st"
  shows "keys_distinct (handleUserLeave s r st)"
proof -
  have "distinct (map fst (rooms (handleUserLeave s r st)))"
    using assms
    by (simp add: keys_distinct_def handleUserLeave_def Let_def AList.distinct_delete
        AList.distinct_update split: option.split)
  then show ?thesis
    using assms by (simp add: keys_distinct_def handleUserLeave_sockets)
qed

lemma keys_leave_existing:
  assumes "keys_distinct st"
  shows "keys_distinct (leave_existing s r st)"
proof -
  have "distinct (map fst (rooms (leave_existing s r st)))"
    using assms
    by (simp add: keys_distinct_def leave_existing_def Let_def AList.distinct_delete
        AList.distinct_update split: option.split)
  then show ?thesis
    using assms by (simp add: keys_distinct_def leave_existing_sockets)
qed

lemma keys_fold_leave:
  "keys_distinct st \<Longrightarrow> keys_distinct (fold (leave_existing s) xs st)"
  by (induction xs arbitrary: st) (simp_all add: keys_leave_existing)

lemma keys_leave_all: "keys_distinct st \<Longrightarrow> keys_distinct (leave_all_existing s st)"
  by (simp add: leave_all_existing_def keys_fold_leave)

lemma keys_join_room:
  assumes "keys_distinct st" and "join_room s now (Some ob) st = Inr st'"
  shows "keys_distinct st'"
proof -
  have k: "keys_distinct (leave_all_existing s st)" using assms(1) by (rule keys_leave_all)
  have "distinct (map fst (rooms st'))"
    using assms(2) k
    by (auto simp add: keys_distinct_def join_room_def Let_def io_to_emit_def
        AList.distinct_update split: option.splits if_splits)
  then show ?thesis
    using k by (simp add: keys_distinct_def join_room_result(2) [OF assms(2)])
qed

lemma keys_set_talking:
  assumes "keys_distinct st" and "set_talking flag s (Some ob) st = Inr st'"
  shows "keys_distinct st'"
  using assms
  by (auto simp add: keys_distinct_def set_talking_def Let_def socket_to_emit_def
      AList.distinct_update split: option.splits)

lemma keys_disconnect:
  assumes "keys_distinct st"
  shows "keys_distinct (disconnect s st)"
proof -
  have "keys_distinct (st\<lparr>sockets := AList.map_entry s
      (\<lambda>k. k\<lparr>srooms := [], connected := False\<rparr>) (sockets st)\<rparr>)"
    using assms by (simp add: keys_distinct_def)
  then show ?thesis
    by (simp add: disconnect_def Let_def keys_handleUserLeave)
qed

lemma keys_connect: "keys_distinct st \<Longrightarrow> keys_distinct (connect s st)"
  by (auto simp add: keys_distinct_def connect_def map_of_eq_None_iff)

lemma distinct_fold_delete:
  "distinct (map fst al) \<Longrightarrow> distinct (map fst (fold AList.delete ks al))"
  by (induction ks arbitrary: al) (simp_all add: AList.distinct_delete)

lemma keys_cleanup: "keys_distinct st \<Longrightarrow> keys_distinct (cleanup st)"
  by (simp add: keys_distinct_def cleanup_def Let_def distinct_fold_delete)

lemma keys_distinct_step:
  assumes "step e st = Inr st'" and "keys_distinct st"
  shows "keys_distinct st'"
  using assms(1)
proof (cases rule: step_cases)
  case ignored
  then show ?thesis using assms(2) by simp
next
  case (connect s)
  then show ?thesis using assms(2) keys_connect by simp
next
  case (join s now ob)
  then show ?thesis using assms(2) keys_join_room by blast
next
  case (talk flag s ob)
  then show ?thesis using assms(2) keys_set_talking by blast
next
  case relay
  then show ?thesis using assms(2) by (simp add: keys_distinct_def)
next
  case (leave s r)
  then show ?thesis using assms(2) keys_handleUserLeave by simp
next
  case (disconnect s)
  then show ?thesis using assms(2) keys_disconnect by simp
next
  case sweep
  then show ?thesis using assms(2) keys_cleanup by simp
qed


definition consistent :: "state \<Rightarrow> bool" where
  "consistent st =
     (rooms_well_kept st \<and> members_known st \<and> joined_transport st \<and>
      single_transport st \<and> single_room st \<and> keys_distinct st)"

lemma consistent_init: "consistent init"
  by (simp add: consistent_def init_def rooms_well_kept_def members_known_def
      joined_transport_def single_transport_def single_room_def keys_distinct_def
      room_members_def socket_rooms_def is_connected_def)

lemma consistent_step:
  assumes "step e st = Inr st'" and "consistent st"
  shows "consistent st'"
  using assms well_kept_step members_known_step joined_transport_step single_transport_step
    single_room_step keys_distinct_step
  unfolding consistent_def by blast

lemma consistent_run:
  "run evs st = Inr st' \<Longrightarrow> consistent st \<Longrightarrow> consistent st'"
proof (induction evs arbitrary: st)
  case Nil
  then show ?case by simp
next
  case (Cons e evs)
  then obtain st1 where "step e st = Inr st1" "run evs st1 = Inr st'"
    by (auto split: sum.splits)
  then show ?case using Cons.IH Cons.prems(2) consistent_step by blast
qed

lemma reachable_consistent: "run evs init = Inr st \<Longrightarrow> consistent st"
  using consistent_run consistent_init by blast

section \<open>The registry against the specification's rooms\<close>



lemma handleUserLeave_currentRoom:
  "socket_currentRoom (handleUserLeave s b st) t = socket_currentRoom st t"
  by (simp add: socket_currentRoom_def handleUserLeave_sockets AList.map_of_map_entry
      split: option.split)























section \<open>Example runs\<close>

text \<open>
  The scenario of the specification: connections \<open>a\<close> (Alice) and \<open>b\<close> (Bob) and the
  room \<open>R1\<close>. The states below are the ones the server is in after the runs named in
  the lemmas that follow them.
\<close>

definition join_payload :: "string \<Rightarrow> string \<Rightarrow> payload" where
  "join_payload r n = Some [(''room'', Str r), (''userName'', Str n)]"

definition room_payload :: "string \<Rightarrow> payload" where
  "room_payload r = Some [(''room'', Str r)]"

definition alice :: participant where
  "alice = \<lparr>pid = ''a'', pname = Str ''Alice'', isTalking = False, joinedAt = 1\<rparr>"

definition bob :: participant where
  "bob = \<lparr>pid = ''b'', pname = Str ''Bob'', isTalking = False, joinedAt = 2\<rparr>"

definition alice_alone :: state where
  "alice_alone =
     \<lparr>rooms = [(Str ''R1'', \<lparr>name = Str ''R1'', participants = [(''a'', alice)],
                              createdAt = 1\<rparr>)],
      sockets = [(''a'', \<lparr>srooms = [Str ''a'', Str ''R1''], userName = Str ''Alice'',
                          currentRoom = Str ''R1'', connected = True\<rparr>)],
      outbox = [\<lparr>recipients = [''a''], body = UserJoined [alice]\<rparr>]\<rparr>"

definition alice_and_bob :: state where
  "alice_and_bob =
     \<lparr>rooms = [(Str ''R1'', \<lparr>name = Str ''R1'',
                              participants = [(''a'', alice), (''b'', bob)],
                              createdAt = 1\<rparr>)],
      sockets = [(''a'', \<lparr>srooms = [Str ''a'', Str ''R1''], userName = Str ''Alice'',
                          currentRoom = Str ''R1'', connected = True\<rparr>),
                 (''b'', \<lparr>srooms = [Str ''b'', Str ''R1''], userName = Str ''Bob'',
                          currentRoom = Str ''R1'', connected = True\<rparr>)],
      outbox = [\<lparr>recipients = [''a''], body = UserJoined [alice]\<rparr>,
                \<lparr>recipients = [''a'', ''b''], body = UserJoined [alice, bob]\<rparr>]\<rparr>"

text \<open>The user-left messages a run has emitted.\<close>

definition left_messages :: "state \<Rightarrow> emitted list" where
  "left_messages st = filter is_left (outbox st)"

lemmas handler_defs =
  step_def is_connected_def connect_def join_room_def leave_all_existing_def
  leave_existing_def socket_rooms_def socket_join_def socket_leave_def io_to_emit_def
  socket_to_emit_def socket_to_def members_of_def get_prop_def leave_room_def handleUserLeave_def
  disconnect_def socket_currentRoom_def socket_userName_def set_talking_def
  start_talking_def stop_talking_def offer_def answer_def ice_candidate_def cleanup_def
  room_members_def room_records_def Let_def

lemmas example_defs = init_def join_payload_def room_payload_def alice_def bob_def


lemma run_alice_alone:
  "run [Connect ''a'', JoinRoom ''a'' 1 (join_payload ''R1'' ''Alice'')] init = Inr alice_alone"
  by (simp add: handler_defs example_defs alice_alone_def)

lemma run_alice_and_bob:
  "run [Connect ''a'', Connect ''b'', JoinRoom ''a'' 1 (join_payload ''R1'' ''Alice''),
        JoinRoom ''b'' 2 (join_payload ''R1'' ''Bob'')] init = Inr alice_and_bob"
  by (simp add: handler_defs example_defs alice_and_bob_def)

section \<open>C1: no room without participants\<close>

lemma join_room_returns: "\<exists>st'. join_room s now (Some ob) st = Inr st'"
  by (simp add: join_room_def Let_def AList.update_conv' split: option.split)



lemma join_room_enters:
  assumes "join_room s now (Some ob) st = Inr st'"
  shows "s \<in> set (room_members (get_prop ob ''room'') st')"
  by (simp add: join_room_members [OF assms] Let_def)

lemma empty_room_absent:
  assumes "rooms_well_kept st" and "room_members r st = []"
  shows "map_of (rooms st) r = None"
proof (cases "map_of (rooms st) r")
  case None
  then show ?thesis .
next
  case (Some rd)
  then have "participants rd \<noteq> []" using assms(1) by (simp add: rooms_well_kept_def well_kept_def)
  then show ?thesis using assms(2) Some by (simp add: room_members_def)
qed




section \<open>C2: one room at a time\<close>

lemma single_split:
  assumes "length (filter P xs) \<le> 1" and "a \<in> set xs" and "P a"
  shows "\<exists>ys zs. xs = ys @ a # zs \<and> (\<forall>y\<in>set ys. \<not> P y) \<and> (\<forall>z\<in>set zs. \<not> P z)"
proof -
  obtain ys zs where xs: "xs = ys @ a # zs" using assms(2) by (auto dest: split_list)
  then have "filter P ys = []" "filter P zs = []"
    using assms(1,3) by auto
  then show ?thesis using xs by (auto simp add: filter_empty_conv)
qed

lemma leave_all_single:
  assumes "single_transport st" and "a \<in> set (socket_rooms st s)" and "a \<noteq> Str s"
  shows "leave_all_existing s st = leave_existing s a st"
proof -
  have "length (filter (\<lambda>x. x \<noteq> Str s) (socket_rooms st s)) \<le> 1"
    using assms(1) by (simp add: single_transport_def)
  then obtain ys zs where xs: "socket_rooms st s = ys @ a # zs"
    "\<forall>y\<in>set ys. y = Str s" "\<forall>z\<in>set zs. z = Str s"
    using single_split [of "\<lambda>x. x \<noteq> Str s" "socket_rooms st s" a] assms(2,3) by auto
  show ?thesis
    by (simp add: leave_all_existing_def xs(1) fold_leave_own [OF xs(2)] fold_leave_own [OF xs(3)])
qed

lemma leave_all_none:
  assumes "\<forall>x\<in>set (socket_rooms st s). x = Str s"
  shows "leave_all_existing s st = st"
  by (simp add: leave_all_existing_def fold_leave_own [OF assms])

lemma room_records_other_fields [simp]:
  "room_records r (st\<lparr>sockets := ss\<rparr>) = room_records r st"
  "room_records r (st\<lparr>outbox := ob\<rparr>) = room_records r st"
  by (simp_all add: room_records_def)

lemma room_records_without:
  "(case without s ro of None \<Rightarrow> [] | Some rd \<Rightarrow> map snd (participants rd)) =
   (case ro of None \<Rightarrow> [] | Some rd \<Rightarrow> map snd (AList.delete s (participants rd)))"
  by (auto simp add: without_def split: option.split)

lemma join_room_outbox:
  assumes "join_room s now (Some ob) st = Inr st'"
  shows "outbox st' = outbox (leave_all_existing s st) @
     [\<lparr>recipients = members_of (get_prop ob ''room'') st',
       body = UserJoined (room_records (get_prop ob ''room'') st')\<rparr>]"
  by (simp add: join_room_result(3) [OF assms] room_records_def join_room_result(1) [OF assms])

lemma leave_existing_outbox_records:
  assumes "a \<noteq> Str s" and "distinct (map fst (sockets st))"
  shows "outbox (leave_existing s a st) =
     outbox st @
     (if room_members a (leave_existing s a st) = [] then []
      else [\<lparr>recipients = removeAll s (socket_to s a st),
             body = UserLeft (room_records a (leave_existing s a st))\<rparr>])"
proof (cases "map_of (rooms st) a")
  case None
  then show ?thesis
    using assms(1)
    by (simp add: leave_existing_outbox [OF assms(2)] room_members_def leave_existing_rooms
        without_def)
next
  case (Some rd)
  have "map fst (AList.delete s (participants rd)) = [] \<longleftrightarrow> AList.delete s (participants rd) = []"
    by simp
  then show ?thesis
    using assms(1) Some
    by (simp add: leave_existing_outbox [OF assms(2)] room_members_def room_records_def
        leave_existing_rooms without_def)
qed

lemma in_transport_room:
  assumes "a \<in> set (socket_rooms st t)"
  shows "t \<in> set (members_of a st)"
proof -
  obtain k where k: "map_of (sockets st) t = Some k" "a \<in> set (srooms k)"
    using assms by (cases "map_of (sockets st) t") (auto simp add: socket_rooms_def)
  then have "(t, k) \<in> set (sockets st)" by (auto dest: map_of_SomeD)
  then show ?thesis using k(2) by (force simp add: members_of_def)
qed

text \<open>
  A connected participant of a room is in the socket.io room of that name, so it gets
  what \<^verbatim>\<open>socket.to(room)\<close> sends unless it is in the room named by the sender's id.
\<close>

lemma others_receive:
  assumes "joined_transport st"
    and "t \<in> set (room_members a st)" and "is_connected st t"
    and "t \<notin> set (members_of (Str s) st)"
  shows "t \<in> set (socket_to s a st)"
proof -
  have "a \<in> set (socket_rooms st t)"
    using assms(1,2,3) by (simp add: joined_transport_def)
  then show ?thesis using assms(4) in_transport_room by (simp add: socket_to_def)
qed

lemma join_from_other_room:
  assumes "consistent st" and "is_connected st s" and "s \<in> set (room_members a st)"
    and "a \<noteq> Str s" and "get_prop ob ''room'' \<noteq> a"
    and "join_room s now (Some ob) st = Inr st'"
  shows "room_members a st' = removeAll s (room_members a st)"
    and "outbox st' = outbox st @
       (if room_members a st' = [] then []
        else [\<lparr>recipients = removeAll s (socket_to s a st),
               body = UserLeft (room_records a st')\<rparr>]) @
       [\<lparr>recipients = members_of (get_prop ob ''room'') st',
         body = UserJoined (room_records (get_prop ob ''room'') st')\<rparr>]"
    and "room_members a st' = [] \<longrightarrow> map_of (rooms st') a = None"
proof -
  have jt: "joined_transport st" and st: "single_transport st" and wk: "rooms_well_kept st"
    and ds: "distinct (map fst (sockets st))"
    using assms(1) by (simp_all add: consistent_def keys_distinct_def)
  have a: "a \<in> set (socket_rooms st s)"
    using jt assms(2,3) by (simp add: joined_transport_def)
  have st1: "leave_all_existing s st = leave_existing s a st"
    using st a assms(4) by (rule leave_all_single)
  have same: "map_of (rooms st') a = map_of (rooms (leave_existing s a st)) a"
    using assms(5) by (simp add: join_room_result(1) [OF assms(6)] st1)
  then have views: "room_members a st' = room_members a (leave_existing s a st)"
    "room_records a st' = room_records a (leave_existing s a st)"
    by (simp_all add: room_members_def room_records_def)
  show "room_members a st' = removeAll s (room_members a st)"
    using a assms(4) by (simp add: views(1) st1 [symmetric] leave_all_members)
  show "outbox st' = outbox st @
       (if room_members a st' = [] then []
        else [\<lparr>recipients = removeAll s (socket_to s a st),
               body = UserLeft (room_records a st')\<rparr>]) @
       [\<lparr>recipients = members_of (get_prop ob ''room'') st',
         body = UserJoined (room_records (get_prop ob ''room'') st')\<rparr>]"
    by (simp add: join_room_outbox [OF assms(6)] st1 views
        leave_existing_outbox_records [OF assms(4) ds])
  have "rooms_well_kept st'" using wk assms(6) by (rule well_kept_join_room)
  then show "room_members a st' = [] \<longrightarrow> map_of (rooms st') a = None"
    using empty_room_absent by blast
qed

text \<open>
  C2 as stated fails twice. A room whose id is the connection's own id is not left: the
  loop of the join-room handler skips \<^verbatim>\<open>roomName === socket.id\<close>, so a connection that
  has joined the room named by its own id stays a participant of it when it joins
  another room. Connection \<open>a\<close> joins room \<open>a\<close> and then room \<open>R\<close>, and is a
  participant of both. And the user-left of the room left does not reach all of its
  remaining members: \<^verbatim>\<open>socket.to(roomName)\<close> leaves out every connection in the
  socket.io room named by the sender's id. Bob joins the room \<open>b\<close> and then the room \<open>a\<close>
  (he stays in \<open>b\<close>, the room of his own id); Alice joins \<open>b\<close> and then \<open>R\<close>. Bob
  remains in \<open>b\<close> and is connected, and the user-left of \<open>b\<close> reaches nobody.
\<close>

theorem own_id_room_is_kept:
  "map_sum id (room_members (Str ''a''))
     (run [Connect ''a'', JoinRoom ''a'' 1 (join_payload ''a'' ''Alice''),
           JoinRoom ''a'' 2 (join_payload ''R'' ''Alice'')] init) = Inr [''a''] \<and>
   map_sum id (room_members (Str ''R''))
     (run [Connect ''a'', JoinRoom ''a'' 1 (join_payload ''a'' ''Alice''),
           JoinRoom ''a'' 2 (join_payload ''R'' ''Alice'')] init) = Inr [''a''] \<and>
   map_sum id (room_members (Str ''b''))
     (run [Connect ''a'', Connect ''b'', JoinRoom ''b'' 2 (join_payload ''b'' ''Bob''),
           JoinRoom ''b'' 3 (join_payload ''a'' ''Bob''),
           JoinRoom ''a'' 4 (join_payload ''b'' ''Alice''),
           JoinRoom ''a'' 5 (join_payload ''R'' ''Alice'')] init) = Inr [''b''] \<and>
   map_sum id (\<lambda>st. is_connected st ''b'')
     (run [Connect ''a'', Connect ''b'', JoinRoom ''b'' 2 (join_payload ''b'' ''Bob''),
           JoinRoom ''b'' 3 (join_payload ''a'' ''Bob''),
           JoinRoom ''a'' 4 (join_payload ''b'' ''Alice''),
           JoinRoom ''a'' 5 (join_payload ''R'' ''Alice'')] init) = Inr True \<and>
   map_sum id left_messages
     (run [Connect ''a'', Connect ''b'', JoinRoom ''b'' 2 (join_payload ''b'' ''Bob''),
           JoinRoom ''b'' 3 (join_payload ''a'' ''Bob''),
           JoinRoom ''a'' 4 (join_payload ''b'' ''Alice''),
           JoinRoom ''a'' 5 (join_payload ''R'' ''Alice'')] init) =
     Inr [\<lparr>recipients = [], body = UserLeft [bob]\<rparr>]"
  by (simp add: handler_defs example_defs left_messages_def is_left_def)

text \<open>
  C2, amended. After every run of events that completes, each connection is a
  participant of at most one room besides the room whose id is its own connection id.
  When a connection that is a participant of room \<open>a\<close> (not the room of its own id)
  joins another room, the handler first removes it from \<open>a\<close>: \<open>a\<close> keeps its other
  participants in their order, or is deleted from the registry if none is left; if some
  are left, one user-left with the remaining records is emitted to the connections in
  the socket.io room \<open>a\<close> that are not in the socket.io room named by the leaving
  connection's id; they include every remaining participant that is connected and is
  not in that room, and never the leaving connection. The user-left is emitted before
  the user-joined of the new room. Afterwards \<open>a\<close> does not contain the connection and
  the new room does.
\<close>

theorem one_room_besides_own:
  assumes "run evs init = Inr st"
  shows "(\<forall>s r1 r2. s \<in> set (room_members r1 st) \<and> s \<in> set (room_members r2 st) \<and>
        r1 \<noteq> Str s \<and> r2 \<noteq> Str s \<longrightarrow> r1 = r2) \<and>
    (\<forall>s a now ob st'. is_connected st s \<and> s \<in> set (room_members a st) \<and> a \<noteq> Str s \<and>
        get_prop ob ''room'' \<noteq> a \<and> join_room s now (Some ob) st = Inr st' \<longrightarrow>
        s \<notin> set (room_members a st') \<and>
        s \<in> set (room_members (get_prop ob ''room'') st') \<and>
        room_members a st' = removeAll s (room_members a st) \<and>
        (room_members a st' = [] \<longrightarrow> map_of (rooms st') a = None) \<and>
        outbox st' = outbox st @
          (if room_members a st' = [] then []
           else [\<lparr>recipients = removeAll s (socket_to s a st),
                  body = UserLeft (room_records a st')\<rparr>]) @
          [\<lparr>recipients = members_of (get_prop ob ''room'') st',
            body = UserJoined (room_records (get_prop ob ''room'') st')\<rparr>] \<and>
        (\<forall>t. t \<in> set (room_members a st') \<and> is_connected st t \<and>
           t \<notin> set (members_of (Str s) st) \<longrightarrow>
           t \<in> set (removeAll s (socket_to s a st))))"
proof -
  have c: "consistent st" using assms by (rule reachable_consistent)
  have one: "\<forall>s r1 r2. s \<in> set (room_members r1 st) \<and> s \<in> set (room_members r2 st) \<and>
        r1 \<noteq> Str s \<and> r2 \<noteq> Str s \<longrightarrow> r1 = r2"
    using c by (simp add: consistent_def single_room_def)
  have move: "s \<notin> set (room_members a st') \<and>
        s \<in> set (room_members (get_prop ob ''room'') st') \<and>
        room_members a st' = removeAll s (room_members a st) \<and>
        (room_members a st' = [] \<longrightarrow> map_of (rooms st') a = None) \<and>
        outbox st' = outbox st @
          (if room_members a st' = [] then []
           else [\<lparr>recipients = removeAll s (socket_to s a st),
                  body = UserLeft (room_records a st')\<rparr>]) @
          [\<lparr>recipients = members_of (get_prop ob ''room'') st',
            body = UserJoined (room_records (get_prop ob ''room'') st')\<rparr>] \<and>
        (\<forall>t. t \<in> set (room_members a st') \<and> is_connected st t \<and>
           t \<notin> set (members_of (Str s) st) \<longrightarrow>
           t \<in> set (removeAll s (socket_to s a st)))"
    if h: "is_connected st s" "s \<in> set (room_members a st)" "a \<noteq> Str s"
      "get_prop ob ''room'' \<noteq> a" "join_room s now (Some ob) st = Inr st'"
    for s a now ob st'
  proof -
    note j = join_from_other_room [OF c h]
    have jt: "joined_transport st" using c by (simp add: consistent_def)
    have "t \<in> set (removeAll s (socket_to s a st))"
      if "t \<in> set (room_members a st')" "is_connected st t"
        "t \<notin> set (members_of (Str s) st)" for t
    proof -
      have "t \<noteq> s" "t \<in> set (room_members a st)" using that(1) j(1) by auto
      then show ?thesis using others_receive [OF jt _ that(2,3)] by simp
    qed
    moreover have "s \<notin> set (room_members a st')" using j(1) by simp
    moreover have "s \<in> set (room_members (get_prop ob ''room'') st')"
      using h(5) by (rule join_room_enters)
    ultimately show ?thesis using j by blast
  qed
  show ?thesis using one move by blast
qed

theorem one_room_besides_own_witness:
  "run [Connect ''a'', Connect ''b'', JoinRoom ''a'' 1 (join_payload ''R1'' ''Alice''),
        JoinRoom ''b'' 2 (join_payload ''R1'' ''Bob'')] init = Inr alice_and_bob \<and>
   is_connected alice_and_bob ''a'' \<and>
   ''a'' \<in> set (room_members (Str ''R1'') alice_and_bob) \<and>
   is_connected alice_and_bob ''b'' \<and>
   ''b'' \<notin> set (members_of (Str ''a'') alice_and_bob) \<and>
   (\<exists>st'. join_room ''a'' 3 (join_payload ''R2'' ''Alice'') alice_and_bob = Inr st' \<and>
      ''a'' \<notin> set (room_members (Str ''R1'') st') \<and>
      ''a'' \<in> set (room_members (Str ''R2'') st') \<and>
      room_members (Str ''R1'') st' = [''b''] \<and>
      ''b'' \<in> set (removeAll ''a'' (socket_to ''a'' (Str ''R1'') alice_and_bob)) \<and>
      outbox st' = outbox alice_and_bob @
        [\<lparr>recipients = [''b''], body = UserLeft (room_records (Str ''R1'') st')\<rparr>,
         \<lparr>recipients = members_of (Str ''R2'') st',
           body = UserJoined (room_records (Str ''R2'') st')\<rparr>])"
proof -
  note t = one_room_besides_own [OF run_alice_and_bob]
  note on_move = t [THEN conjunct2, rule_format]
  let ?ob = "[(''room'', Str ''R2''), (''userName'', Str ''Alice'')]"
  have conn: "is_connected alice_and_bob ''a''" "is_connected alice_and_bob ''b''"
    by (simp_all add: is_connected_def alice_and_bob_def)
  have m: "room_members (Str ''R1'') alice_and_bob = [''a'', ''b'']"
    by (simp add: room_members_def alice_and_bob_def)
  have tr: "socket_to ''a'' (Str ''R1'') alice_and_bob = [''b'']"
    by (simp add: socket_to_def members_of_def alice_and_bob_def)
  have own: "''b'' \<notin> set (members_of (Str ''a'') alice_and_bob)"
    by (simp add: members_of_def alice_and_bob_def)
  have room: "get_prop ?ob ''room'' = Str ''R2''" by (simp add: get_prop_def)
  obtain st' where j: "join_room ''a'' 3 (Some ?ob) alice_and_bob = Inr st'"
    using join_room_returns by blast
  have "is_connected alice_and_bob ''a'' \<and> ''a'' \<in> set (room_members (Str ''R1'') alice_and_bob) \<and>
      Str ''R1'' \<noteq> Str ''a'' \<and> get_prop ?ob ''room'' \<noteq> Str ''R1'' \<and>
      join_room ''a'' 3 (Some ?ob) alice_and_bob = Inr st'"
    using conn m j room by simp
  note r = on_move [OF this]
  have r1: "room_members (Str ''R1'') st' = [''b'']"
    using r [THEN conjunct2, THEN conjunct2, THEN conjunct1] by (simp add: m)
  have r2: "''a'' \<in> set (room_members (Str ''R2'') st')"
    using r [THEN conjunct2, THEN conjunct1] by (simp only: room)
  have r3: "outbox st' = outbox alice_and_bob @
        [\<lparr>recipients = [''b''], body = UserLeft (room_records (Str ''R1'') st')\<rparr>,
         \<lparr>recipients = members_of (Str ''R2'') st',
           body = UserJoined (room_records (Str ''R2'') st')\<rparr>]"
    using r [THEN conjunct2, THEN conjunct2, THEN conjunct2, THEN conjunct2, THEN conjunct1]
    by (simp add: r1 tr room)
  have r4: "''b'' \<in> set (removeAll ''a'' (socket_to ''a'' (Str ''R1'') alice_and_bob))"
    using r [THEN conjunct2, THEN conjunct2, THEN conjunct2, THEN conjunct2, THEN conjunct2,
        rule_format, of "''b''"] r1 conn(2) own by simp
  have "''a'' \<notin> set (room_members (Str ''R1'') st')"
    "''a'' \<in> set (room_members (Str ''R2'') st')"
    "room_members (Str ''R1'') st' = [''b'']"
    "outbox st' = outbox alice_and_bob @
        [\<lparr>recipients = [''b''], body = UserLeft (room_records (Str ''R1'') st')\<rparr>,
         \<lparr>recipients = members_of (Str ''R2'') st',
           body = UserJoined (room_records (Str ''R2'') st')\<rparr>]"
    using r1 r2 r3 by simp_all
  then show ?thesis
    using run_alice_and_bob conn m j own r4 by (simp add: join_payload_def)
qed

section \<open>C3: a leave for another room\<close>

lemma handleUserLeave_not_member:
  assumes "rooms_well_kept st" and "s \<notin> set (room_members b st)"
  shows "rooms (handleUserLeave s b st) = rooms st"
proof (cases "map_of (rooms st) b")
  case None
  then show ?thesis by (simp add: handleUserLeave_def)
next
  case (Some rd)
  then have keep: "AList.delete s (participants rd) = participants rd"
    using assms(2) by (simp add: room_members_def)
  have "participants rd \<noteq> []"
    using assms(1) Some by (simp add: rooms_well_kept_def well_kept_def)
  then show ?thesis
    using Some keep by (simp add: handleUserLeave_def AList.update_triv)
qed

text \<open>
  C3 as stated fails: the leave-room handler passes the room named in the event to
  \<^verbatim>\<open>handleUserLeave\<close>, not \<^verbatim>\<open>socket.currentRoom\<close>. Alice is in \<open>A\<close>, Bob in \<open>B\<close>, and
  Alice sends leave-room for \<open>B\<close>: she is still a participant of \<open>A\<close>, and Bob is
  sent a user-left.
\<close>

theorem leave_for_other_room_keeps_current:
  "map_sum id (room_members (Str ''A''))
     (run [Connect ''a'', Connect ''b'', JoinRoom ''a'' 1 (join_payload ''A'' ''Alice''),
           JoinRoom ''b'' 2 (join_payload ''B'' ''Bob''),
           LeaveRoom ''a'' (room_payload ''B'')] init) = Inr [''a''] \<and>
   map_sum id outbox
     (run [Connect ''a'', Connect ''b'', JoinRoom ''a'' 1 (join_payload ''A'' ''Alice''),
           JoinRoom ''b'' 2 (join_payload ''B'' ''Bob''),
           LeaveRoom ''a'' (room_payload ''B'')] init) =
     Inr [\<lparr>recipients = [''a''], body = UserJoined [alice]\<rparr>,
          \<lparr>recipients = [''b''], body = UserJoined [bob]\<rparr>,
          \<lparr>recipients = [''b''], body = UserLeft [bob]\<rparr>]"
  by (simp add: handler_defs example_defs)

text \<open>
  C3, amended. For every connection whose recorded current room is \<open>a\<close>, a leave-room
  event naming a different room \<open>b\<close> of which the connection is not a participant
  returns normally and leaves the registry as it was: the leave targets the named room,
  not the recorded current room, so the connection stays a participant of \<open>a\<close> and \<open>a\<close>
  stays its recorded current room. When \<open>b\<close> is not in the registry nothing is emitted.
\<close>

theorem leave_room_targets_named_room:
  assumes "run evs init = Inr st"
    and "socket_currentRoom st s = a" and "b \<noteq> a" and "get_prop ob ''room'' = b"
    and "s \<notin> set (room_members b st)"
  shows "\<exists>st'. leave_room s (Some ob) st = Inr st' \<and> rooms st' = rooms st \<and>
     room_members a st' = room_members a st \<and> socket_currentRoom st' s = a \<and>
     (map_of (rooms st) b = None \<longrightarrow> outbox st' = outbox st)"
proof -
  have wk: "rooms_well_kept st"
    using reachable_consistent [OF assms(1)] by (simp add: consistent_def)
  let ?st' = "handleUserLeave s b st"
  have r: "rooms ?st' = rooms st" using wk assms(5) by (rule handleUserLeave_not_member)
  then have "room_members a ?st' = room_members a st" by (simp add: room_members_def)
  moreover have "socket_currentRoom ?st' s = a"
    using assms(2) by (simp add: handleUserLeave_currentRoom)
  moreover have "map_of (rooms st) b = None \<longrightarrow> outbox ?st' = outbox st"
    by (simp add: handleUserLeave_outbox)
  ultimately show ?thesis
    using r assms(4) by (simp add: leave_room_def)
qed

theorem leave_room_targets_named_room_witness:
  "run [Connect ''a'', Connect ''b'', JoinRoom ''a'' 1 (join_payload ''R1'' ''Alice''),
        JoinRoom ''b'' 2 (join_payload ''R1'' ''Bob'')] init = Inr alice_and_bob \<and>
   socket_currentRoom alice_and_bob ''a'' = Str ''R1'' \<and>
   ''a'' \<notin> set (room_members (Str ''R3'') alice_and_bob) \<and>
   map_of (rooms alice_and_bob) (Str ''R3'') = None \<and>
   (\<exists>st'. leave_room ''a'' (room_payload ''R3'') alice_and_bob = Inr st' \<and>
      rooms st' = rooms alice_and_bob \<and>
      room_members (Str ''R1'') st' = [''a'', ''b''] \<and>
      socket_currentRoom st' ''a'' = Str ''R1'' \<and>
      outbox st' = outbox alice_and_bob)"
proof -
  let ?ob = "[(''room'', Str ''R3'')]"
  have cur: "socket_currentRoom alice_and_bob ''a'' = Str ''R1''"
    by (simp add: socket_currentRoom_def alice_and_bob_def)
  have room: "get_prop ?ob ''room'' = Str ''R3''" by (simp add: get_prop_def)
  have absent: "map_of (rooms alice_and_bob) (Str ''R3'') = None"
    by (simp add: alice_and_bob_def)
  then have out: "''a'' \<notin> set (room_members (Str ''R3'') alice_and_bob)"
    by (simp add: room_members_def)
  have m: "room_members (Str ''R1'') alice_and_bob = [''a'', ''b'']"
    by (simp add: room_members_def alice_and_bob_def)
  have "Str ''R3'' \<noteq> Str ''R1''" by simp
  note t = leave_room_targets_named_room [OF run_alice_and_bob cur this room out]
  then obtain st' where "leave_room ''a'' (Some ?ob) alice_and_bob = Inr st'"
    "rooms st' = rooms alice_and_bob" "room_members (Str ''R1'') st' = [''a'', ''b'']"
    "socket_currentRoom st' ''a'' = Str ''R1''" "outbox st' = outbox alice_and_bob"
    using absent m by auto
  then show ?thesis
    using run_alice_and_bob cur out absent by (simp add: room_payload_def)
qed

section \<open>C4: leaving twice\<close>

text \<open>
  The registry half of the claim holds: where every room entry is well kept, as in all
  states a run can reach, a second \<^verbatim>\<open>handleUserLeave\<close> for the same socket and room
  finds the socket gone and changes nothing in the registry.
\<close>

lemma second_leave_keeps_registry:
  assumes "rooms_well_kept st"
  shows "rooms (handleUserLeave s r (handleUserLeave s r st)) = rooms (handleUserLeave s r st)"
proof -
  have "rooms_well_kept (handleUserLeave s r st)"
    using assms by (rule well_kept_handleUserLeave)
  moreover have "s \<notin> set (room_members r (handleUserLeave s r st))"
    by (simp add: handleUserLeave_members)
  ultimately show ?thesis by (rule handleUserLeave_not_member)
qed

text \<open>
  C4. A second leave for the same connection and room does not change the registry, but
  \<^verbatim>\<open>handleUserLeave\<close> emits user-left whenever the room still has participants,
  whether or not the call removed anyone, and leave-room does not clear
  \<^verbatim>\<open>socket.currentRoom\<close>. Alice and Bob are in \<open>R1\<close>; Alice sends leave-room for \<open>R1\<close>
  and then disconnects. Bob is sent user-left once after the leave-room and a second
  time after the disconnect; the registry is the same after both.
\<close>

theorem second_leave_emits_user_left_again:
  "map_sum id left_messages
     (run [Connect ''a'', Connect ''b'', JoinRoom ''a'' 1 (join_payload ''R1'' ''Alice''),
           JoinRoom ''b'' 2 (join_payload ''R1'' ''Bob''),
           LeaveRoom ''a'' (room_payload ''R1'')] init) =
     Inr [\<lparr>recipients = [''b''], body = UserLeft [bob]\<rparr>] \<and>
   map_sum id left_messages
     (run [Connect ''a'', Connect ''b'', JoinRoom ''a'' 1 (join_payload ''R1'' ''Alice''),
           JoinRoom ''b'' 2 (join_payload ''R1'' ''Bob''),
           LeaveRoom ''a'' (room_payload ''R1''), Disconnect ''a''] init) =
     Inr [\<lparr>recipients = [''b''], body = UserLeft [bob]\<rparr>,
          \<lparr>recipients = [''b''], body = UserLeft [bob]\<rparr>] \<and>
   map_sum id rooms
     (run [Connect ''a'', Connect ''b'', JoinRoom ''a'' 1 (join_payload ''R1'' ''Alice''),
           JoinRoom ''b'' 2 (join_payload ''R1'' ''Bob''),
           LeaveRoom ''a'' (room_payload ''R1''), Disconnect ''a''] init) =
   map_sum id rooms
     (run [Connect ''a'', Connect ''b'', JoinRoom ''a'' 1 (join_payload ''R1'' ''Alice''),
           JoinRoom ''b'' 2 (join_payload ''R1'' ''Bob''),
           LeaveRoom ''a'' (room_payload ''R1'')] init)"
  by (simp add: handler_defs example_defs left_messages_def is_left_def)

section \<open>C5: the user-joined broadcast\<close>










section \<open>C6: start-talking and stop-talking\<close>

lemma set_talking_applied:
  assumes "map_of (rooms st) (get_prop ob ''room'') = Some rd"
    and "map_of (participants rd) s = Some u"
  shows "set_talking flag s (Some ob) st =
     Inr (st\<lparr>rooms := AList.update (get_prop ob ''room'')
                (rd\<lparr>participants := AList.update s (u\<lparr>isTalking := flag\<rparr>) (participants rd)\<rparr>)
                (rooms st),
              outbox := outbox st @
                [\<lparr>recipients = socket_to s (get_prop ob ''room'') st,
                  body = UserTalking s (socket_userName st s) flag\<rparr>]\<rparr>)"
  using assms by (simp add: set_talking_def Let_def socket_to_emit_def)

lemma set_talking_skipped:
  assumes "s \<notin> set (room_members (get_prop ob ''room'') st)"
  shows "set_talking flag s (Some ob) st = Inr st"
proof (cases "map_of (rooms st) (get_prop ob ''room'')")
  case None
  then show ?thesis by (simp add: set_talking_def)
next
  case (Some rd)
  then have "s \<notin> fst ` set (participants rd)"
    using assms by (simp add: room_members_def)
  then have "map_of (participants rd) s = None" by (simp add: map_of_eq_None_iff)
  then show ?thesis using Some by (simp add: set_talking_def)
qed

text \<open>
  C6 as stated fails: user-talking does not reach every other participant of the room.
  \<^verbatim>\<open>socket.to(room)\<close> leaves out every connection that is in the socket.io room named
  by the sender's id, and \<^verbatim>\<open>socket.join(room)\<close> of the join-room handler takes any room
  id, also a connection id. Alice and Bob join the room named by Alice's connection id
  and Alice starts talking: her record is set, Bob is a participant and connected, and
  the user-talking reaches nobody.
\<close>

theorem talking_skips_the_senders_room:
  "map_sum id (room_members (Str ''a''))
     (run [Connect ''a'', Connect ''b'', JoinRoom ''a'' 1 (join_payload ''a'' ''Alice''),
           JoinRoom ''b'' 2 (join_payload ''a'' ''Bob''),
           StartTalking ''a'' (room_payload ''a'')] init) = Inr [''a'', ''b''] \<and>
   map_sum id (\<lambda>st. is_connected st ''b'')
     (run [Connect ''a'', Connect ''b'', JoinRoom ''a'' 1 (join_payload ''a'' ''Alice''),
           JoinRoom ''b'' 2 (join_payload ''a'' ''Bob''),
           StartTalking ''a'' (room_payload ''a'')] init) = Inr True \<and>
   map_sum id (room_records (Str ''a''))
     (run [Connect ''a'', Connect ''b'', JoinRoom ''a'' 1 (join_payload ''a'' ''Alice''),
           JoinRoom ''b'' 2 (join_payload ''a'' ''Bob''),
           StartTalking ''a'' (room_payload ''a'')] init) =
     Inr [alice\<lparr>isTalking := True\<rparr>, bob] \<and>
   map_sum id (\<lambda>st. last (outbox st))
     (run [Connect ''a'', Connect ''b'', JoinRoom ''a'' 1 (join_payload ''a'' ''Alice''),
           JoinRoom ''b'' 2 (join_payload ''a'' ''Bob''),
           StartTalking ''a'' (room_payload ''a'')] init) =
     Inr \<lparr>recipients = [], body = UserTalking ''a'' (Str ''Alice'') True\<rparr>"
  by (simp add: handler_defs example_defs)

text \<open>
  C6, amended. In every state a run can reach, for start-talking (flag true) and
  stop-talking (flag false) with a payload: if the named room is in the registry and
  holds a record for the sender, the handler sets \<^verbatim>\<open>isTalking\<close> of that record to the
  flag, changes nothing else in the registry, and emits one user-talking with the
  sender's id, the name stored on the sender's socket and the flag; the event goes to
  the connections in the socket.io room of that name that are not in the socket.io room
  named by the sender's connection id. They include every participant of the room that
  is connected and is not in the room named by the sender's id, and they do not include
  the sender as long as the sender is in the room of its own id. If the room is not in
  the registry, or holds no record for the sender, the handler returns the state as it
  was and raises nothing.
\<close>

theorem talking_reaches_the_others:
  assumes "run evs init = Inr st"
  shows "(\<forall>rd u. map_of (rooms st) (get_prop ob ''room'') = Some rd \<and>
        map_of (participants rd) s = Some u \<longrightarrow>
        (if flag then start_talking s (Some ob) st else stop_talking s (Some ob) st) =
          Inr (st\<lparr>rooms := AList.update (get_prop ob ''room'')
                  (rd\<lparr>participants :=
                        AList.update s (u\<lparr>isTalking := flag\<rparr>) (participants rd)\<rparr>)
                  (rooms st),
                outbox := outbox st @
                  [\<lparr>recipients = socket_to s (get_prop ob ''room'') st,
                    body = UserTalking s (socket_userName st s) flag\<rparr>]\<rparr>) \<and>
        (s \<in> set (members_of (Str s) st) \<longrightarrow>
           s \<notin> set (socket_to s (get_prop ob ''room'') st)) \<and>
        (\<forall>t. t \<in> set (room_members (get_prop ob ''room'') st) \<and> is_connected st t \<and>
             t \<notin> set (members_of (Str s) st) \<longrightarrow>
             t \<in> set (socket_to s (get_prop ob ''room'') st))) \<and>
    (s \<notin> set (room_members (get_prop ob ''room'') st) \<longrightarrow>
        (if flag then start_talking s (Some ob) st else stop_talking s (Some ob) st) = Inr st)"
proof -
  let ?R = "get_prop ob ''room''"
  have jt: "joined_transport st"
    using reachable_consistent [OF assms] by (simp add: consistent_def)
  have talk: "(if flag then start_talking s (Some ob) st else stop_talking s (Some ob) st) =
      set_talking flag s (Some ob) st"
    by (simp add: start_talking_def stop_talking_def)
  have others: "\<forall>t. t \<in> set (room_members ?R st) \<and> is_connected st t \<and>
      t \<notin> set (members_of (Str s) st) \<longrightarrow> t \<in> set (socket_to s ?R st)"
    using others_receive [OF jt, of _ ?R s] by simp
  have self: "s \<in> set (members_of (Str s) st) \<longrightarrow> s \<notin> set (socket_to s ?R st)"
    by (simp add: socket_to_def)
  show ?thesis
    unfolding talk using set_talking_applied set_talking_skipped others self by simp
qed

theorem talking_reaches_the_others_witness:
  "run [Connect ''a'', Connect ''b'', JoinRoom ''a'' 1 (join_payload ''R1'' ''Alice''),
        JoinRoom ''b'' 2 (join_payload ''R1'' ''Bob'')] init = Inr alice_and_bob \<and>
   start_talking ''a'' (room_payload ''R1'') alice_and_bob =
     Inr (alice_and_bob\<lparr>rooms :=
            [(Str ''R1'', \<lparr>name = Str ''R1'',
                participants = [(''a'', alice\<lparr>isTalking := True\<rparr>), (''b'', bob)],
                createdAt = 1\<rparr>)],
          outbox := outbox alice_and_bob @
            [\<lparr>recipients = [''b''], body = UserTalking ''a'' (Str ''Alice'') True\<rparr>]\<rparr>) \<and>
   ''a'' \<in> set (members_of (Str ''a'') alice_and_bob) \<and>
   ''a'' \<notin> set (socket_to ''a'' (Str ''R1'') alice_and_bob) \<and>
   ''b'' \<in> set (room_members (Str ''R1'') alice_and_bob) \<and>
   is_connected alice_and_bob ''b'' \<and>
   ''b'' \<notin> set (members_of (Str ''a'') alice_and_bob) \<and>
   ''b'' \<in> set (socket_to ''a'' (Str ''R1'') alice_and_bob) \<and>
   ''a'' \<notin> set (room_members (Str ''R3'') alice_and_bob) \<and>
   stop_talking ''a'' (room_payload ''R3'') alice_and_bob = Inr alice_and_bob"
proof -
  let ?ob = "[(''room'', Str ''R1'')]"
  let ?ob3 = "[(''room'', Str ''R3'')]"
  let ?rd = "\<lparr>name = Str ''R1'', participants = [(''a'', alice), (''b'', bob)], createdAt = 1\<rparr>"
  have rd: "map_of (rooms alice_and_bob) (get_prop ?ob ''room'') = Some ?rd \<and>
      map_of (participants ?rd) ''a'' = Some alice"
    by (simp add: alice_and_bob_def get_prop_def)
  have room: "get_prop ?ob ''room'' = Str ''R1''" by (simp add: get_prop_def)
  have out: "''a'' \<notin> set (room_members (get_prop ?ob3 ''room'') alice_and_bob)"
    by (simp add: room_members_def alice_and_bob_def get_prop_def)
  have own: "''a'' \<in> set (members_of (Str ''a'') alice_and_bob)"
    "''b'' \<notin> set (members_of (Str ''a'') alice_and_bob)"
    by (simp_all add: members_of_def alice_and_bob_def)
  have bob_in: "''b'' \<in> set (room_members (Str ''R1'') alice_and_bob)"
    "is_connected alice_and_bob ''b''"
    by (simp_all add: room_members_def is_connected_def alice_and_bob_def)
  note t = talking_reaches_the_others [OF run_alice_and_bob]
  note applied = t [of ?ob "''a''" True, THEN conjunct1, rule_format, OF rd]
  have "start_talking ''a'' (Some ?ob) alice_and_bob =
     Inr (alice_and_bob\<lparr>rooms := AList.update (get_prop ?ob ''room'')
            (?rd\<lparr>participants := AList.update ''a'' (alice\<lparr>isTalking := True\<rparr>) (participants ?rd)\<rparr>)
            (rooms alice_and_bob),
          outbox := outbox alice_and_bob @
            [\<lparr>recipients = socket_to ''a'' (get_prop ?ob ''room'') alice_and_bob,
              body = UserTalking ''a'' (socket_userName alice_and_bob ''a'') True\<rparr>]\<rparr>)"
    using applied [THEN conjunct1] by simp
  then have on: "start_talking ''a'' (Some ?ob) alice_and_bob =
     Inr (alice_and_bob\<lparr>rooms :=
            [(Str ''R1'', \<lparr>name = Str ''R1'',
                participants = [(''a'', alice\<lparr>isTalking := True\<rparr>), (''b'', bob)],
                createdAt = 1\<rparr>)],
          outbox := outbox alice_and_bob @
            [\<lparr>recipients = [''b''], body = UserTalking ''a'' (Str ''Alice'') True\<rparr>]\<rparr>)"
    by (simp add: get_prop_def alice_and_bob_def socket_to_def members_of_def
        socket_userName_def)
  have not_self: "''a'' \<notin> set (socket_to ''a'' (Str ''R1'') alice_and_bob)"
    using applied [THEN conjunct2, THEN conjunct1] own(1) by (simp add: room)
  have to_bob: "''b'' \<in> set (socket_to ''a'' (Str ''R1'') alice_and_bob)"
    using applied [THEN conjunct2, THEN conjunct2, rule_format, of "''b''"] bob_in own(2)
    by (simp add: room)
  have off: "stop_talking ''a'' (Some ?ob3) alice_and_bob = Inr alice_and_bob"
    using t [of ?ob3 "''a''" False, THEN conjunct2, rule_format, OF out] by simp
  show ?thesis
    using run_alice_and_bob on off out own bob_in not_self to_bob
    by (simp add: room_payload_def get_prop_def)
qed

section \<open>C7: the signalling relays\<close>




section \<open>C8: malformed payloads\<close>

lemma set_talking_returns: "\<exists>st'. set_talking flag s (Some ob) st = Inr st'"
  by (simp add: set_talking_def Let_def split: option.split)

text \<open>
  C8 as stated fails: the handlers have no validation. An event without a payload makes
  the handler throw while it destructures its parameter, and the server has no handler
  for the exception; a join-room whose payload lacks the room is not ignored either:
  the sender leaves its room (Alice is sent user-left) and joins the room keyed by
  \<^verbatim>\<open>undefined\<close>.
\<close>

theorem missing_payload_throws:
  "run [Connect ''a'', JoinRoom ''a'' 1 None] init = Inl TypeError \<and>
   map_sum id (room_members Undefined)
     (run [Connect ''a'', Connect ''b'', JoinRoom ''a'' 1 (join_payload ''R1'' ''Alice''),
           JoinRoom ''b'' 2 (join_payload ''R1'' ''Bob''),
           JoinRoom ''b'' 3 (Some [])] init) = Inr [''b''] \<and>
   map_sum id left_messages
     (run [Connect ''a'', Connect ''b'', JoinRoom ''a'' 1 (join_payload ''R1'' ''Alice''),
           JoinRoom ''b'' 2 (join_payload ''R1'' ''Bob''),
           JoinRoom ''b'' 3 (Some [])] init) =
     Inr [\<lparr>recipients = [''a''], body = UserLeft [alice]\<rparr>]"
  by (simp add: handler_defs example_defs left_messages_def is_left_def)

text \<open>
  C8, amended. For every event whose payload is present but lacks fields (an object
  without room, userName or to, or a value that is not an object), each handler returns
  normally without throwing, reading the absent fields as \<^verbatim>\<open>undefined\<close>. For an event
  whose payload is missing (\<^verbatim>\<open>undefined\<close> or \<^verbatim>\<open>null\<close>), each handler throws a
  TypeError while destructuring its parameter, before it reads or changes any state.
\<close>

theorem malformed_payload_throws_or_runs:
  "join_room s now None st = Inl TypeError \<and>
   start_talking s None st = Inl TypeError \<and>
   stop_talking s None st = Inl TypeError \<and>
   offer s None st = Inl TypeError \<and>
   answer s None st = Inl TypeError \<and>
   ice_candidate s None st = Inl TypeError \<and>
   leave_room s None st = Inl TypeError \<and>
   (\<exists>st'. join_room s now (Some ob) st = Inr st') \<and>
   (\<exists>st'. start_talking s (Some ob) st = Inr st') \<and>
   (\<exists>st'. stop_talking s (Some ob) st = Inr st') \<and>
   (\<exists>st'. offer s (Some ob) st = Inr st') \<and>
   (\<exists>st'. answer s (Some ob) st = Inr st') \<and>
   (\<exists>st'. ice_candidate s (Some ob) st = Inr st') \<and>
   (\<exists>st'. leave_room s (Some ob) st = Inr st')"
  using join_room_returns [of s now ob st] set_talking_returns [of True s ob st]
    set_talking_returns [of False s ob st]
  by (simp add: join_room_def start_talking_def stop_talking_def set_talking_def offer_def
      answer_def ice_candidate_def leave_room_def)

theorem malformed_payload_throws_or_runs_witness:
  "join_room ''a'' 3 None alice_alone = Inl TypeError \<and>
   leave_room ''a'' None alice_alone = Inl TypeError \<and>
   (\<exists>st'. join_room ''a'' 3 (Some []) alice_alone = Inr st') \<and>
   (\<exists>st'. offer ''a'' (Some [(''offer'', Str ''sdp'')]) alice_alone = Inr st')"
  using malformed_payload_throws_or_runs [of "''a''" 3 alice_alone "[]"]
    malformed_payload_throws_or_runs [of "''a''" 3 alice_alone "[(''offer'', Str ''sdp'')]"]
  by blast

section \<open>C9: joining the same room again\<close>

lemma update_absent: "k \<notin> fst ` set al \<Longrightarrow> AList.update k v al = al @ [(k, v)]"
  by (induction al) auto

lemma enter_after_leave:
  "participants (enter s r un now (without s (Some rd))) =
     AList.delete s (participants rd) @ [(s, fresh s un now)]"
  by (simp add: enter_def without_def update_absent AList.delete_notin_dom)

text \<open>
  C9 as stated fails twice. The loop of the join-room handler skips the room whose id
  is the connection's own id: the second join overwrites the record in place.
  Connection \<open>a\<close> joins room \<open>a\<close>, \<open>b\<close> joins it, and \<open>a\<close> joins it again: \<open>a\<close> is
  still first in the order and no user-left was emitted. And the user-left of a rejoin
  does not reach all other members: \<^verbatim>\<open>socket.to(roomName)\<close> leaves out every
  connection in the socket.io room named by the sender's id. Bob joins the room \<open>b\<close> and
  then the room \<open>a\<close>; Alice joins \<open>b\<close> twice. Bob is the other member of \<open>b\<close> and is
  connected, and the user-left of Alice's rejoin reaches nobody.
\<close>

theorem rejoin_own_id_room_in_place:
  "map_sum id (room_members (Str ''a''))
     (run [Connect ''a'', Connect ''b'', JoinRoom ''a'' 1 (join_payload ''a'' ''Alice''),
           JoinRoom ''b'' 2 (join_payload ''a'' ''Bob''),
           JoinRoom ''a'' 3 (join_payload ''a'' ''Alice'')] init) = Inr [''a'', ''b''] \<and>
   map_sum id left_messages
     (run [Connect ''a'', Connect ''b'', JoinRoom ''a'' 1 (join_payload ''a'' ''Alice''),
           JoinRoom ''b'' 2 (join_payload ''a'' ''Bob''),
           JoinRoom ''a'' 3 (join_payload ''a'' ''Alice'')] init) = Inr [] \<and>
   map_sum id (room_members (Str ''b''))
     (run [Connect ''a'', Connect ''b'', JoinRoom ''b'' 2 (join_payload ''b'' ''Bob''),
           JoinRoom ''b'' 3 (join_payload ''a'' ''Bob''),
           JoinRoom ''a'' 4 (join_payload ''b'' ''Alice''),
           JoinRoom ''a'' 5 (join_payload ''b'' ''Alice'')] init) = Inr [''b'', ''a''] \<and>
   map_sum id (\<lambda>st. is_connected st ''b'')
     (run [Connect ''a'', Connect ''b'', JoinRoom ''b'' 2 (join_payload ''b'' ''Bob''),
           JoinRoom ''b'' 3 (join_payload ''a'' ''Bob''),
           JoinRoom ''a'' 4 (join_payload ''b'' ''Alice''),
           JoinRoom ''a'' 5 (join_payload ''b'' ''Alice'')] init) = Inr True \<and>
   map_sum id left_messages
     (run [Connect ''a'', Connect ''b'', JoinRoom ''b'' 2 (join_payload ''b'' ''Bob''),
           JoinRoom ''b'' 3 (join_payload ''a'' ''Bob''),
           JoinRoom ''a'' 4 (join_payload ''b'' ''Alice''),
           JoinRoom ''a'' 5 (join_payload ''b'' ''Alice'')] init) =
     Inr [\<lparr>recipients = [], body = UserLeft [bob]\<rparr>]"
  by (simp add: handler_defs example_defs left_messages_def is_left_def)

text \<open>
  C9, amended. In every state a run can reach, for a connected socket that is a
  participant of room \<open>r\<close>, \<open>r\<close> not being the room of its own id, a join-room event
  for \<open>r\<close> first removes the socket from \<open>r\<close>, emitting, when any participant
  remains, a user-left with the remaining records to the connections in the socket.io
  room \<open>r\<close> that are not in the socket.io room named by the rejoining connection's id
  (every other participant that is connected and is not in that room is among them,
  the rejoining connection is not), and then inserts it again with a fresh record:
  \<^verbatim>\<open>isTalking\<close> is false, \<^verbatim>\<open>joinedAt\<close> is the time of the event, and the record is
  the last of the room's map, after the other participants in the order they had.
\<close>

theorem rejoin_same_room:
  assumes "run evs init = Inr st" and "is_connected st s"
    and "get_prop ob ''room'' = r" and "r \<noteq> Str s"
    and "map_of (rooms st) r = Some rd" and "s \<in> fst ` set (participants rd)"
  shows "\<exists>st' rd'.
     join_room s now (Some ob) st = Inr st' \<and>
     map_of (rooms st') r = Some rd' \<and>
     participants rd' = AList.delete s (participants rd) @
       [(s, \<lparr>pid = s, pname = get_prop ob ''userName'', isTalking = False, joinedAt = now\<rparr>)] \<and>
     outbox st' = outbox st @
       (if AList.delete s (participants rd) = [] then []
        else [\<lparr>recipients = removeAll s (socket_to s r st),
               body = UserLeft (map snd (AList.delete s (participants rd)))\<rparr>]) @
       [\<lparr>recipients = members_of r st', body = UserJoined (map snd (participants rd'))\<rparr>] \<and>
     (\<forall>t. t \<in> fst ` set (participants rd) \<and> t \<noteq> s \<and> is_connected st t \<and>
        t \<notin> set (members_of (Str s) st) \<longrightarrow>
        t \<in> set (removeAll s (socket_to s r st)))"
proof -
  have c: "consistent st" using assms(1) by (rule reachable_consistent)
  then have jt: "joined_transport st" and st: "single_transport st"
    and ds: "distinct (map fst (sockets st))"
    by (simp_all add: consistent_def keys_distinct_def)
  have mem: "room_members r st = map fst (participants rd)"
    using assms(5) by (simp add: room_members_def)
  then have "r \<in> set (socket_rooms st s)"
    using jt assms(2,6) by (simp add: joined_transport_def)
  then have st1: "leave_all_existing s st = leave_existing s r st"
    using st assms(4) leave_all_single by blast
  obtain st' where j: "join_room s now (Some ob) st = Inr st'"
    using join_room_returns by blast
  let ?rd' = "enter s r (get_prop ob ''userName'') now (without s (Some rd))"
  have r1: "map_of (rooms (leave_existing s r st)) r = without s (Some rd)"
    using assms(4,5) by (simp add: leave_existing_rooms)
  have rd': "map_of (rooms st') r = Some ?rd'"
    using join_room_result(1) [OF j] assms(3) by (simp add: st1 r1)
  have ps: "participants ?rd' = AList.delete s (participants rd) @
       [(s, \<lparr>pid = s, pname = get_prop ob ''userName'', isTalking = False, joinedAt = now\<rparr>)]"
    by (simp add: enter_after_leave fresh_def)
  have out: "outbox st' = outbox st @
       (if AList.delete s (participants rd) = [] then []
        else [\<lparr>recipients = removeAll s (socket_to s r st),
               body = UserLeft (map snd (AList.delete s (participants rd)))\<rparr>]) @
       [\<lparr>recipients = members_of r st', body = UserJoined (map snd (participants ?rd'))\<rparr>]"
    using assms(3,4,5) rd'
    by (simp add: join_room_outbox [OF j] st1 leave_existing_outbox [OF ds] room_records_def)
  have others: "t \<in> set (removeAll s (socket_to s r st))"
    if "t \<in> fst ` set (participants rd)" "t \<noteq> s" "is_connected st t"
      "t \<notin> set (members_of (Str s) st)" for t
  proof -
    have "t \<in> set (room_members r st)" using that(1) mem by simp
    then show ?thesis using others_receive [OF jt _ that(3,4)] that(2) by simp
  qed
  show ?thesis
    using j rd' ps out others by blast
qed

theorem rejoin_same_room_witness:
  "run [Connect ''a'', Connect ''b'', JoinRoom ''a'' 1 (join_payload ''R1'' ''Alice''),
        JoinRoom ''b'' 2 (join_payload ''R1'' ''Bob'')] init = Inr alice_and_bob \<and>
   is_connected alice_and_bob ''a'' \<and>
   room_members (Str ''R1'') alice_and_bob = [''a'', ''b''] \<and>
   (\<exists>st' rd'.
      join_room ''a'' 3 (join_payload ''R1'' ''Alice'') alice_and_bob = Inr st' \<and>
      map_of (rooms st') (Str ''R1'') = Some rd' \<and>
      participants rd' =
        [(''b'', bob),
         (''a'', \<lparr>pid = ''a'', pname = Str ''Alice'', isTalking = False, joinedAt = 3\<rparr>)] \<and>
      outbox st' = outbox alice_and_bob @
        [\<lparr>recipients = [''b''], body = UserLeft [bob]\<rparr>,
         \<lparr>recipients = members_of (Str ''R1'') st',
           body = UserJoined (map snd (participants rd'))\<rparr>])"
proof -
  let ?ob = "[(''room'', Str ''R1''), (''userName'', Str ''Alice'')]"
  let ?rd = "\<lparr>name = Str ''R1'', participants = [(''a'', alice), (''b'', bob)], createdAt = 1\<rparr>"
  have conn: "is_connected alice_and_bob ''a''"
    by (simp add: is_connected_def alice_and_bob_def)
  have m: "room_members (Str ''R1'') alice_and_bob = [''a'', ''b'']"
    by (simp add: room_members_def alice_and_bob_def)
  have room: "get_prop ?ob ''room'' = Str ''R1''" by (simp add: get_prop_def)
  have rd: "map_of (rooms alice_and_bob) (Str ''R1'') = Some ?rd"
    by (simp add: alice_and_bob_def)
  have mem: "''a'' \<in> fst ` set (participants ?rd)" by simp
  have own: "Str ''R1'' \<noteq> Str ''a''" by simp
  have del: "AList.delete ''a'' (participants ?rd) = [(''b'', bob)]" by simp
  have tr: "removeAll ''a'' (socket_to ''a'' (Str ''R1'') alice_and_bob) = [''b'']"
    by (simp add: socket_to_def members_of_def alice_and_bob_def)
  obtain st' rd' where r:
    "join_room ''a'' 3 (Some ?ob) alice_and_bob = Inr st'"
    "map_of (rooms st') (Str ''R1'') = Some rd'"
    "participants rd' = AList.delete ''a'' (participants ?rd) @
       [(''a'', \<lparr>pid = ''a'', pname = get_prop ?ob ''userName'', isTalking = False,
                 joinedAt = 3\<rparr>)]"
    "outbox st' = outbox alice_and_bob @
       (if AList.delete ''a'' (participants ?rd) = [] then []
        else [\<lparr>recipients = removeAll ''a'' (socket_to ''a'' (Str ''R1'') alice_and_bob),
               body = UserLeft (map snd (AList.delete ''a'' (participants ?rd)))\<rparr>]) @
       [\<lparr>recipients = members_of (Str ''R1'') st', body = UserJoined (map snd (participants rd'))\<rparr>]"
    using rejoin_same_room [OF run_alice_and_bob conn room own rd mem, of 3] by blast
  have ps: "participants rd' =
        [(''b'', bob),
         (''a'', \<lparr>pid = ''a'', pname = Str ''Alice'', isTalking = False, joinedAt = 3\<rparr>)]"
    using r(3) unfolding del by (simp add: get_prop_def)
  have out: "outbox st' = outbox alice_and_bob @
        [\<lparr>recipients = [''b''], body = UserLeft [bob]\<rparr>,
         \<lparr>recipients = members_of (Str ''R1'') st',
           body = UserJoined (map snd (participants rd'))\<rparr>]"
    using r(4) unfolding del tr by simp
  show ?thesis
    using run_alice_and_bob conn m r(1,2) ps out unfolding join_payload_def by blast
qed

section \<open>C10: the room endpoint\<close>

text \<open>
  C10 as stated fails for the empty room id. The route \<^verbatim>\<open>/api/rooms/:roomId\<close> matches
  a path segment of at least one character, so \<^verbatim>\<open>GET /api/rooms/\<close> is answered with
  404 and the handler does not run, while the join-room handler takes the empty string
  as a room id like any other. Alice joins the room with the empty id: the room is in
  the registry with her record and the endpoint answers 404 for it; before she joins,
  the room is not in the registry and the endpoint answers 404 as well.
\<close>

theorem empty_room_id_is_not_routed:
  "map_sum id (room_records (Str []))
     (run [Connect ''a'', JoinRoom ''a'' 1 (join_payload [] ''Alice'')] init) = Inr [alice] \<and>
   map_sum id (\<lambda>st. fst (get_room_info [] st))
     (run [Connect ''a'', JoinRoom ''a'' 1 (join_payload [] ''Alice'')] init) =
     Inr NotFound404 \<and>
   map_sum id (room_records (Str [])) (run [Connect ''a''] init) = Inr [] \<and>
   map_sum id (\<lambda>st. fst (get_room_info [] st)) (run [Connect ''a''] init) = Inr NotFound404"
  by (simp add: handler_defs example_defs get_room_info_def)

text \<open>
  C10, amended. For every room id that is not the empty string,
  \<^verbatim>\<open>GET /api/rooms/:roomId\<close> answers with status 200 in both branches. For a room id
  that is not in the registry the body has no participants and the count 0; for a room
  that is there the body lists the room's participant records, in the order of the
  room's map, with their number as the count. For the empty room id the answer is 404.
  The registry is returned as it was in every case.
\<close>

theorem get_room_info_reads_registry:
  "(roomId \<noteq> [] \<and> map_of (rooms st) (Str roomId) = None \<longrightarrow>
      get_room_info roomId st =
        (Ok200 \<lparr>info_participants = [], participantCount = 0\<rparr>, st)) \<and>
   (\<forall>r. roomId \<noteq> [] \<and> map_of (rooms st) (Str roomId) = Some r \<longrightarrow>
      get_room_info roomId st =
        (Ok200 \<lparr>info_participants = map snd (participants r),
                participantCount = length (map snd (participants r))\<rparr>, st)) \<and>
   (roomId \<noteq> [] \<longrightarrow>
      get_room_info roomId st =
        (Ok200 \<lparr>info_participants = room_records (Str roomId) st,
                participantCount = length (room_members (Str roomId) st)\<rparr>, st)) \<and>
   get_room_info [] st = (NotFound404, st)"
  by (simp add: get_room_info_def room_records_def room_members_def split: option.split)

theorem get_room_info_reads_registry_witness:
  "run [Connect ''a'', JoinRoom ''a'' 1 (join_payload ''R1'' ''Alice'')] init = Inr alice_alone \<and>
   ''R2'' \<noteq> [] \<and> map_of (rooms alice_alone) (Str ''R2'') = None \<and>
   get_room_info ''R2'' alice_alone =
     (Ok200 \<lparr>info_participants = [], participantCount = 0\<rparr>, alice_alone) \<and>
   ''R1'' \<noteq> [] \<and>
   map_of (rooms alice_alone) (Str ''R1'') =
     Some \<lparr>name = Str ''R1'', participants = [(''a'', alice)], createdAt = 1\<rparr> \<and>
   get_room_info ''R1'' alice_alone =
     (Ok200 \<lparr>info_participants = [alice], participantCount = 1\<rparr>, alice_alone) \<and>
   room_records (Str ''R1'') alice_alone = [alice] \<and>
   get_room_info [] alice_alone = (NotFound404, alice_alone)"
proof -
  let ?rd = "\<lparr>name = Str ''R1'', participants = [(''a'', alice)], createdAt = 1\<rparr>"
  have absent: "''R2'' \<noteq> [] \<and> map_of (rooms alice_alone) (Str ''R2'') = None"
    by (simp add: alice_alone_def)
  have present: "''R1'' \<noteq> [] \<and> map_of (rooms alice_alone) (Str ''R1'') = Some ?rd"
    by (simp add: alice_alone_def)
  have recs: "room_records (Str ''R1'') alice_alone = [alice]"
    by (simp add: room_records_def alice_alone_def)
  note t2 = get_room_info_reads_registry [of "''R2''" alice_alone]
  note t1 = get_room_info_reads_registry [of "''R1''" alice_alone]
  have r2: "get_room_info ''R2'' alice_alone =
     (Ok200 \<lparr>info_participants = [], participantCount = 0\<rparr>, alice_alone)"
    using t2 [THEN conjunct1] absent by blast
  have r1: "get_room_info ''R1'' alice_alone =
     (Ok200 \<lparr>info_participants = map snd (participants ?rd),
             participantCount = length (map snd (participants ?rd))\<rparr>, alice_alone)"
    using t1 [THEN conjunct2, THEN conjunct1, rule_format, OF present] .
  have r0: "get_room_info [] alice_alone = (NotFound404, alice_alone)"
    using t1 [THEN conjunct2, THEN conjunct2, THEN conjunct2] .
  show ?thesis
    using run_alice_alone absent present r2 r1 recs r0 by simp
qed

end
